theory Spec2Isabelle
  imports Main "HOL-Library.Word"
begin

unbundle bit_operations_syntax

section \<open>Collaborators declared in debug.h\<close>

text \<open>
  The file nqptp-utilities.c calls two functions of debug.h, which is not among the
  sources: the logging sink \<^verbatim>\<open>debug(level, format, ...)\<close> and \<^verbatim>\<open>die(format, ...)\<close>.
  Both are represented by what the caller hands to them.
\<close>

type_synonym log_line = "int \<times> string"

text \<open>
  Modelled from the spec: the logging sink \<^verbatim>\<open>debug\<close> of debug.h, "a leveled write
  operation". A call is recorded as the pair of its level argument and its formatted
  text, appended to the lines logged so far.
\<close>

definition debug :: "int \<Rightarrow> string \<Rightarrow> log_line list \<Rightarrow> log_line list" where
  "debug level text lg = lg @ [(level, text)]"

text \<open>
  Modelled from the spec: \<^verbatim>\<open>die\<close> of debug.h reports "a descriptive message" and
  terminates the process. A run that reaches it ends in \<open>Died\<close> with the formatted
  message. \<open>Out_of_bounds\<close> is the other way a run can leave the C semantics: an
  access outside the object it addresses.
\<close>

datatype fault = Died string | Out_of_bounds

section \<open>Formatted output\<close>

definition NUL :: char where
  "NUL = CHR 0x00"

definition dquote :: char where
  "dquote = CHR 0x22"

text \<open>
  A block of memory is the list of its bytes. \<open>poke mem off s\<close> stores the bytes \<open>s\<close> at
  offset \<open>off\<close>; a store that does not fit in the block is a fault.
\<close>

definition poke :: "string \<Rightarrow> nat \<Rightarrow> string \<Rightarrow> fault + string" where
  "poke mem off s =
     (if off + length s \<le> length mem
      then Inr (take off mem @ s @ drop (off + length s) mem)
      else Inl Out_of_bounds)"

text \<open>
  \<^verbatim>\<open>snprintf(mem + off, sz, ...)\<close> with formatted text \<open>s\<close>: at most \<open>sz - 1\<close>
  characters of \<open>s\<close> are stored, followed by a terminating NUL (every call in the
  file has \<open>sz \<ge> 1\<close>).
\<close>

definition snprintf :: "string \<Rightarrow> nat \<Rightarrow> nat \<Rightarrow> string \<Rightarrow> fault + string" where
  "snprintf mem off sz s = poke mem off (take (sz - 1) s @ [NUL])"

text \<open>
  The C string that starts at the beginning of a block: the bytes before the first NUL.
\<close>

definition c_string :: "string \<Rightarrow> string" where
  "c_string mem = takeWhile (\<lambda>c. c \<noteq> NUL) mem"

definition hex_digit :: "nat \<Rightarrow> char" where
  "hex_digit d = ''0123456789ABCDEF'' ! d"

text \<open>
  The conversion \<^verbatim>\<open>%X\<close> of an unsigned value: upper-case digits, no leading zero.
\<close>

fun hex_upper :: "nat \<Rightarrow> string" where
  "hex_upper n =
     (if n < 16 then [hex_digit n] else hex_upper (n div 16) @ [hex_digit (n mod 16)])"

declare hex_upper.simps [simp del]

text \<open>
  The conversion \<^verbatim>\<open>%02X\<close>: padded with zeros to at least two digits.
\<close>

definition fmt_02X :: "32 word \<Rightarrow> string" where
  "fmt_02X v = (let s = hex_upper (unat v) in replicate (2 - length s) (CHR ''0'') @ s)"

text \<open>
  The conversion \<^verbatim>\<open>%d\<close> of a value that is not negative.
\<close>

fun dec :: "nat \<Rightarrow> string" where
  "dec n =
     (if n < 10 then [''0123456789'' ! n] else dec (n div 10) @ [''0123456789'' ! (n mod 10)])"

declare dec.simps [simp del]

section \<open>debug_print_buffer\<close>

text \<open>
  The buffer is \<^verbatim>\<open>char *buf\<close> with \<^verbatim>\<open>size_t buf_len\<close>: the bytes found at \<open>buf + i\<close>
  and a length. Whether plain \<^verbatim>\<open>char\<close> is signed is implementation-defined
  (signed on x86 Linux, unsigned on ARM Linux), so it is a parameter \<open>char_signed\<close>.

  A \<^verbatim>\<open>char\<close> passed to a variadic function is promoted to \<^verbatim>\<open>int\<close>; \<^verbatim>\<open>%X\<close> reads
  that argument as an \<^verbatim>\<open>unsigned int\<close> of 32 bits.
\<close>

type_synonym memory = "nat \<Rightarrow> 8 word"

definition char_to_int :: "bool \<Rightarrow> 8 word \<Rightarrow> int" where
  "char_to_int char_signed c = (if char_signed then sint c else uint c)"

definition char_as_unsigned :: "bool \<Rightarrow> 8 word \<Rightarrow> 32 word" where
  "char_as_unsigned char_signed c = word_of_int (char_to_int char_signed c)"

text \<open>
  The state of the formatter is the write position \<open>obfp\<close> (an offset into the block)
  and the block \<open>obf\<close>. \<open>emit sz s adv\<close> is the pair of statements
  \<^verbatim>\<open>snprintf(obfp, sz, ...); obfp += adv;\<close> with formatted text \<open>s\<close>.
\<close>

definition emit :: "nat \<Rightarrow> string \<Rightarrow> nat \<Rightarrow> nat \<times> string \<Rightarrow> fault + (nat \<times> string)" where
  "emit sz s adv st =
     (case st of (obfp, obf) \<Rightarrow>
        (case snprintf obf obfp sz s of
           Inl e \<Rightarrow> Inl e
         | Inr obf' \<Rightarrow> Inr (obfp + adv, obf')))"

text \<open>
  One round of the \<^verbatim>\<open>for\<close> loop, lines 127 to 140. The comparison
  \<^verbatim>\<open>obfc != buf_len - 1\<close> is made in \<^verbatim>\<open>size_t\<close>; inside the loop \<^verbatim>\<open>buf_len\<close> is at least 1,
  so the subtraction does not wrap.
\<close>

definition format_byte ::
  "bool \<Rightarrow> memory \<Rightarrow> nat \<Rightarrow> nat \<Rightarrow> nat \<times> string \<Rightarrow> fault + (nat \<times> string)" where
  "format_byte char_signed buf buf_len obfc st =
     (case emit 3 (fmt_02X (char_as_unsigned char_signed (buf obfc))) 2 st of
        Inl e \<Rightarrow> Inl e
      | Inr st1 \<Rightarrow>
          if obfc \<noteq> buf_len - 1 then
            if obfc mod 32 = 31 then emit 5 '' || '' 4 st1
            else if obfc mod 16 = 15 then emit 4 '' | '' 3 st1
            else if obfc mod 4 = 3 then emit 2 '' '' 1 st1
            else Inr st1
          else Inr st1)"

text \<open>
  The loop \<^verbatim>\<open>for (obfc = 0; obfc < buf_len; obfc++)\<close>, entered at any counter value.
  The counter is an \<^verbatim>\<open>unsigned int\<close> of 32 bits and wraps around; \<^verbatim>\<open>buf_len\<close> is a
  \<^verbatim>\<open>size_t\<close>, to which the counter is converted for the comparisons. The loop ends
  when the counter reaches \<^verbatim>\<open>buf_len\<close> or when a store leaves the block; every round
  that succeeds moves the write position forward inside the block, which is why the
  recursion terminates.
\<close>

function format_loop ::
  "bool \<Rightarrow> memory \<Rightarrow> nat \<Rightarrow> nat \<Rightarrow> nat \<times> string \<Rightarrow> fault + (nat \<times> string)" where
  "format_loop char_signed buf buf_len obfc st =
     (if obfc < buf_len then
        (case format_byte char_signed buf buf_len obfc st of
           Inl e \<Rightarrow> Inl e
         | Inr st' \<Rightarrow> format_loop char_signed buf buf_len ((obfc + 1) mod 2 ^ 32) st')
      else Inr st)"
  by pat_completeness auto
termination
proof (relation "measure (\<lambda>(char_signed, buf, buf_len, obfc, st). length (snd st) - fst st)")
  show "wf (measure (\<lambda>(char_signed, buf, buf_len, obfc, st). length (snd st) - fst st))"
    by simp
next
  fix char_signed :: bool and buf :: memory and buf_len obfc :: nat
    and st st' :: "nat \<times> string"
  assume round: "format_byte char_signed buf buf_len obfc st = Inr st'"
  have poked: "length mem' = length mem \<and> off < length mem"
    if "snprintf mem off sz s = Inr mem'" for mem mem' off sz s
    using that by (auto simp: snprintf_def poke_def split: if_splits)
  have emitted: "fst t' = fst t + adv \<and> fst t < length (snd t) \<and> length (snd t') = length (snd t)"
    if "emit sz s adv t = Inr t'" for sz s adv t t'
    using that by (cases t) (auto simp: emit_def split: sum.splits dest: poked)
  obtain st1 where
    first: "emit 3 (fmt_02X (char_as_unsigned char_signed (buf obfc))) 2 st = Inr st1"
    using round by (auto simp: format_byte_def split: sum.splits)
  have "fst st1 \<le> fst st' \<and> length (snd st') = length (snd st1)"
    using round first by (auto simp: format_byte_def split: if_splits dest: emitted)
  with emitted [OF first]
  have "length (snd st') - fst st' < length (snd st) - fst st"
    by arith
  then show "((char_signed, buf, buf_len, (obfc + 1) mod 2 ^ 32, st'),
         (char_signed, buf, buf_len, obfc, st))
        \<in> measure (\<lambda>(char_signed, buf, buf_len, obfc, st). length (snd st) - fst st)"
    by simp
qed

declare format_loop.simps [simp del]

text \<open>
  \<^verbatim>\<open>malloc(sz)\<close> either fails (\<open>None\<close>) or returns a block of \<open>sz\<close> bytes whose
  contents are not initialised: \<open>Some junk\<close> gives the bytes found there. The size
  \<^verbatim>\<open>buf_len * 4 + 1\<close> is computed in \<^verbatim>\<open>size_t\<close>, taken 64 bits wide (x86-64 and
  AArch64 Linux).
\<close>

definition malloc :: "(nat \<Rightarrow> char) option \<Rightarrow> nat \<Rightarrow> string option" where
  "malloc heap sz = map_option (\<lambda>junk. map junk [0..<sz]) heap"

text \<open>
  Lines 124 to 142: the loop from a fresh block, then \<^verbatim>\<open>*obfp = 0\<close>. The result is
  the block as the \<^verbatim>\<open>%s\<close> conversions of lines 146 to 161 will read it.
\<close>

definition format_buffer :: "bool \<Rightarrow> string \<Rightarrow> memory \<Rightarrow> nat \<Rightarrow> fault + string" where
  "format_buffer char_signed obf buf buf_len =
     (case format_loop char_signed buf buf_len 0 (0, obf) of
        Inl e \<Rightarrow> Inl e
      | Inr (obfp, obf') \<Rightarrow> poke obf' obfp [NUL])"

text \<open>
  The \<^verbatim>\<open>switch (buf[0])\<close> of lines 143 to 163, on the promoted first byte: the one
  call of \<^verbatim>\<open>debug\<close> that the function makes.
\<close>

definition log_tagged :: "int \<Rightarrow> int \<Rightarrow> string \<Rightarrow> log_line list \<Rightarrow> log_line list" where
  "log_tagged level first obf lg =
     (if first = 0x10 then debug level (''SYNC: '' @ [dquote] @ obf @ [dquote] @ ''.'') lg
      else if first = 0x18 then debug level (''FLUP: '' @ [dquote] @ obf @ [dquote] @ ''.'') lg
      else if first = 0x19 then debug level (''DRSP: '' @ [dquote] @ obf @ [dquote] @ ''.'') lg
      else if first = 0x1B then debug level (''ANNC: '' @ [dquote] @ obf @ [dquote] @ ''.'') lg
      else if first = 0x1C then debug level (''SGNL: '' @ [dquote] @ obf @ [dquote] @ ''.'') lg
      else debug 1 (''XXXX  '' @ [dquote] @ obf @ [dquote] @ ''.'') lg)"

text \<open>
  The whole function. Its result is the list of lines it hands to the logging sink, or
  a fault. \<open>heap\<close> decides the outcome of \<^verbatim>\<open>malloc\<close>. The byte \<^verbatim>\<open>buf[0]\<close> is read
  whatever \<^verbatim>\<open>buf_len\<close> is.
\<close>

definition debug_print_buffer ::
  "bool \<Rightarrow> (nat \<Rightarrow> char) option \<Rightarrow> int \<Rightarrow> memory \<Rightarrow> nat \<Rightarrow> fault + log_line list" where
  "debug_print_buffer char_signed heap level buf buf_len =
     (case malloc heap ((buf_len * 4 + 1) mod 2 ^ 64) of
        None \<Rightarrow> Inr []
      | Some obf \<Rightarrow>
          (case format_buffer char_signed obf buf buf_len of
             Inl e \<Rightarrow> Inl e
           | Inr obf' \<Rightarrow>
               Inr (log_tagged level (char_to_int char_signed (buf 0)) (c_string obf') [])))"

subsection \<open>What the formatter writes\<close>

text \<open>
  The text that one round of the loop leaves in the block, read off lines 127 to 139:
  the first two characters of the \<^verbatim>\<open>%02X\<close> conversion, then the separator chosen by
  the counter.
\<close>

definition separator :: "nat \<Rightarrow> nat \<Rightarrow> string" where
  "separator buf_len obfc =
     (if obfc \<noteq> buf_len - 1 then
        if obfc mod 32 = 31 then '' || ''
        else if obfc mod 16 = 15 then '' | ''
        else if obfc mod 4 = 3 then '' ''
        else []
      else [])"

definition hex_pair :: "bool \<Rightarrow> 8 word \<Rightarrow> string" where
  "hex_pair char_signed c = take 2 (fmt_02X (char_as_unsigned char_signed c))"

definition piece :: "bool \<Rightarrow> memory \<Rightarrow> nat \<Rightarrow> nat \<Rightarrow> string" where
  "piece char_signed buf buf_len obfc = hex_pair char_signed (buf obfc) @ separator buf_len obfc"

text \<open>
  The text of the rounds \<open>i\<close>, \<open>i + 1\<close>, ... up to the last byte.
\<close>

definition rendered :: "bool \<Rightarrow> memory \<Rightarrow> nat \<Rightarrow> nat \<Rightarrow> string" where
  "rendered char_signed buf buf_len i = concat (map (piece char_signed buf buf_len) [i..<buf_len])"

subsection \<open>The rendering as the specification words it\<close>

text \<open>
  Section 4.3 of the specification: "each byte is rendered as two uppercase hex digits
  with no separator within a 4-byte group; a single space separates 4-byte groups;
  every 16 bytes a " | " separator is used instead; every 32 bytes a " || " separator
  is used instead; no trailing separator after the final byte". \<open>spec_separator n k\<close>
  is what follows the \<open>k\<close>-th byte of \<open>n\<close>, counted from 1.
\<close>

definition spec_hex2 :: "8 word \<Rightarrow> string" where
  "spec_hex2 b = [hex_digit (unat b div 16), hex_digit (unat b mod 16)]"

definition spec_separator :: "nat \<Rightarrow> nat \<Rightarrow> string" where
  "spec_separator n k =
     (if k = n then []
      else if k mod 32 = 0 then '' || ''
      else if k mod 16 = 0 then '' | ''
      else if k mod 4 = 0 then '' ''
      else [])"

definition spec_dump :: "8 word list \<Rightarrow> string" where
  "spec_dump bytes =
     concat (map (\<lambda>k. spec_hex2 (bytes ! (k - 1)) @ spec_separator (length bytes) k)
                 [1..<length bytes + 1])"

section \<open>open_sockets_at_port\<close>

text \<open>
  The address families that \<^verbatim>\<open>getaddrinfo\<close> returns for the hints of lines 53 to 56
  (\<^verbatim>\<open>AF_UNSPEC\<close>, \<^verbatim>\<open>SOCK_DGRAM\<close>, \<^verbatim>\<open>AI_PASSIVE\<close>, no node name): one wildcard address
  per family.
\<close>

datatype address_family = AF_INET | AF_INET6

record addrinfo =
  ai_family :: address_family

text \<open>
  The operating system is scripted: with every entry of the address list come the
  values that the system calls made for it return, and the text of
  \<^verbatim>\<open>strerror(errno)\<close> at the time the entry has been dealt with.
\<close>

record replies =
  socket_ret :: int
  v6only_ret :: int
  bind_ret :: int
  timestamping_ret :: int
  getfl_ret :: int
  strerror_errno :: string

text \<open>
  The system calls of the function, with the arguments that matter here: the
  descriptor, the option value, the flags.
\<close>

datatype syscall =
    Getaddrinfo string
  | Socket address_family
  | Setsockopt_V6ONLY int int
  | Bind int address_family
  | Setsockopt_TIMESTAMPING int int
  | Fcntl_GETFL int
  | Fcntl_SETFL int int
  | Freeaddrinfo

text \<open>
  The header nqptp-utilities.h is not among the sources. The function uses the fields
  \<^verbatim>\<open>sockets[i].number\<close>, \<^verbatim>\<open>sockets[i].port\<close> and \<^verbatim>\<open>sockets_open\<close>; the capacity of the
  array is the length of the list \<open>sockets\<close>.
\<close>

record socket_info =
  number :: int
  port :: "16 word"

record sockets_open_bundle =
  sockets :: "socket_info list"
  sockets_open :: nat

text \<open>
  What a run has done so far: the system calls made, the lines logged and the bundle
  \<^verbatim>\<open>*sockets_open_stuff\<close>.
\<close>

record run =
  calls :: "syscall list"
  logged :: "log_line list"
  sockets_open_stuff :: sockets_open_bundle

definition sys :: "syscall \<Rightarrow> run \<Rightarrow> run" where
  "sys c w = w\<lparr>calls := calls w @ [c]\<rparr>"

text \<open>
  Constants of linux/net_tstamp.h and fcntl.h, with their Linux values.
\<close>

definition SOF_TIMESTAMPING_TX_HARDWARE :: int where "SOF_TIMESTAMPING_TX_HARDWARE = 1"

definition SOF_TIMESTAMPING_TX_SOFTWARE :: int where "SOF_TIMESTAMPING_TX_SOFTWARE = 2"

definition SOF_TIMESTAMPING_RX_HARDWARE :: int where "SOF_TIMESTAMPING_RX_HARDWARE = 4"

definition SOF_TIMESTAMPING_RX_SOFTWARE :: int where "SOF_TIMESTAMPING_RX_SOFTWARE = 8"

definition SOF_TIMESTAMPING_SOFTWARE :: int where "SOF_TIMESTAMPING_SOFTWARE = 16"

definition SOF_TIMESTAMPING_RAW_HARDWARE :: int where "SOF_TIMESTAMPING_RAW_HARDWARE = 64"

definition O_NONBLOCK :: int where "O_NONBLOCK = 2048"

text \<open>
  Lines 85 to 87.
\<close>

definition so_timestamping_flags :: int where
  "so_timestamping_flags =
     SOF_TIMESTAMPING_TX_HARDWARE OR SOF_TIMESTAMPING_TX_SOFTWARE OR
     SOF_TIMESTAMPING_RX_HARDWARE OR SOF_TIMESTAMPING_RX_SOFTWARE OR
     SOF_TIMESTAMPING_SOFTWARE OR SOF_TIMESTAMPING_RAW_HARDWARE"

text \<open>
  The texts of lines 101 to 104 and of line 107, with
  \<^verbatim>\<open>p->ai_family == AF_INET6 ? "IPv6" : "IPv4"\<close>.
\<close>

definition family_name :: "address_family \<Rightarrow> string" where
  "family_name f = (if f = AF_INET6 then ''IPv6'' else ''IPv4'')"

definition unable_to_listen :: "address_family \<Rightarrow> 16 word \<Rightarrow> string \<Rightarrow> string" where
  "unable_to_listen f portno err =
     ''unable to listen on '' @ family_name f @ '' port '' @ dec (unat portno) @
     ''. The error is: '' @ [dquote] @ err @ [dquote] @
     ''. Daemon must run as root. Or is a separate PTP daemon running?''"

definition listening_on :: "address_family \<Rightarrow> 16 word \<Rightarrow> string" where
  "listening_on f portno = ''listening on '' @ family_name f @ '' port '' @ dec (unat portno) @ ''.''"

text \<open>
  Lines 108 to 110. The source does not compare \<^verbatim>\<open>sockets_open\<close> with the capacity
  of the array: a store past its end is \<open>Out_of_bounds\<close>.
\<close>

definition append_socket :: "int \<Rightarrow> 16 word \<Rightarrow> run \<Rightarrow> (fault \<times> run) + run" where
  "append_socket fd portno w =
     (let b = sockets_open_stuff w in
      if sockets_open b < length (sockets b) then
        Inr (w\<lparr>sockets_open_stuff :=
               b\<lparr>sockets := (sockets b)[sockets_open b := \<lparr>number = fd, port = portno\<rparr>],
                 sockets_open := sockets_open b + 1\<rparr>\<rparr>)
      else Inl (Out_of_bounds, w))"

text \<open>
  One round of the loop, lines 67 to 112, for the entry \<open>p\<close> with the replies \<open>r\<close>.
  \<^verbatim>\<open>IPV6_V6ONLY\<close> is defined on Linux, so lines 77 to 79 are compiled. The result is
  \<open>Inl\<close> with the fault and the run up to it, or \<open>Inr\<close> with the run after the round.
\<close>

definition open_socket :: "16 word \<Rightarrow> addrinfo \<times> replies \<Rightarrow> run \<Rightarrow> (fault \<times> run) + run" where
  "open_socket portno e w =
     (case e of (p, r) \<Rightarrow>
       (let fd = socket_ret r;
            w0 = sys (Socket (ai_family p)) w
        in if fd \<noteq> - 1 then
             (let (ret1, w1) =
                    (if ai_family p = AF_INET6
                     then (0 OR v6only_ret r, sys (Setsockopt_V6ONLY fd 1) w0)
                     else (0, w0));
                  (ret2, w2) =
                    (if ret1 = 0 then (bind_ret r, sys (Bind fd (ai_family p)) w1) else (ret1, w1));
                  (ret3, w3) =
                    (if ret2 = 0
                     then (timestamping_ret r, sys (Setsockopt_TIMESTAMPING fd so_timestamping_flags) w2)
                     else (ret2, w2));
                  flags = getfl_ret r;
                  w4 = sys (Fcntl_SETFL fd (flags OR O_NONBLOCK)) (sys (Fcntl_GETFL fd) w3)
              in if ret3 \<noteq> 0 then
                   Inl (Died (unable_to_listen (ai_family p) portno (strerror_errno r)), w4)
                 else
                   append_socket fd portno
                     (w4\<lparr>logged := debug 2 (listening_on (ai_family p) portno) (logged w4)\<rparr>))
           else Inr w0))"

text \<open>
  The loop \<^verbatim>\<open>for (p = info; p; p = p->ai_next)\<close>.
\<close>

fun open_loop :: "16 word \<Rightarrow> (addrinfo \<times> replies) list \<Rightarrow> run \<Rightarrow> (fault \<times> run) + run" where
  "open_loop portno [] w = Inr w"
| "open_loop portno (e # es) w =
     (case open_socket portno e w of
        Inl stop \<Rightarrow> Inl stop
      | Inr w' \<Rightarrow> open_loop portno es w')"

text \<open>
  What \<^verbatim>\<open>getaddrinfo\<close> answers: its return value and the list \<^verbatim>\<open>info\<close>.
\<close>

record resolver =
  gai_ret :: int
  info :: "(addrinfo \<times> replies) list"

text \<open>
  The whole function, lines 47 to 116. The \<^verbatim>\<open>die\<close> of line 63 names
  \<^verbatim>\<open>getifaddrs\<close>, as the source does.
\<close>

definition open_sockets_at_port ::
  "(int \<Rightarrow> string) \<Rightarrow> resolver \<Rightarrow> 16 word \<Rightarrow> run \<Rightarrow> (fault \<times> run) + run" where
  "open_sockets_at_port gai_strerror env portno w =
     (let portstr = take 19 (dec (unat portno));
          w0 = sys (Getaddrinfo portstr) w;
          ret = gai_ret env
      in if ret \<noteq> 0 then Inl (Died (''getifaddrs: '' @ gai_strerror ret), w0)
         else (case open_loop portno (info env) w0 of
                 Inl stop \<Rightarrow> Inl stop
               | Inr w1 \<Rightarrow> Inr (sys Freeaddrinfo w1)))"

text \<open>
  The run at the end, whether the function returned or the process was stopped.
\<close>

definition final_run :: "(fault \<times> run) + run \<Rightarrow> run" where
  "final_run res = (case res of Inl (f, w) \<Rightarrow> w | Inr w \<Rightarrow> w)"

text \<open>
  Names for the outcomes of a round: the socket was created (line 72); an option or
  the bind failed (line 100); the calls the round makes for a created socket; the
  record it appends.
\<close>

definition created :: "addrinfo \<times> replies \<Rightarrow> bool" where
  "created e = (socket_ret (snd e) \<noteq> - 1)"

definition option_failed :: "addrinfo \<times> replies \<Rightarrow> bool" where
  "option_failed e =
     ((ai_family (fst e) = AF_INET6 \<and> v6only_ret (snd e) \<noteq> 0)
      \<or> bind_ret (snd e) \<noteq> 0 \<or> timestamping_ret (snd e) \<noteq> 0)"

definition round_calls :: "addrinfo \<times> replies \<Rightarrow> syscall list" where
  "round_calls e =
     (case e of (p, r) \<Rightarrow>
        Socket (ai_family p) #
        (if ai_family p = AF_INET6 then [Setsockopt_V6ONLY (socket_ret r) 1] else []) @
        (if ai_family p = AF_INET6 \<and> v6only_ret r \<noteq> 0 then []
         else Bind (socket_ret r) (ai_family p) #
           (if bind_ret r = 0
            then [Setsockopt_TIMESTAMPING (socket_ret r) so_timestamping_flags] else [])) @
        [Fcntl_GETFL (socket_ret r), Fcntl_SETFL (socket_ret r) (getfl_ret r OR O_NONBLOCK)])"

definition record_of :: "16 word \<Rightarrow> addrinfo \<times> replies \<Rightarrow> socket_info" where
  "record_of portno e = \<lparr>number = socket_ret (snd e), port = portno\<rparr>"

definition loop_calls :: "(addrinfo \<times> replies) list \<Rightarrow> syscall list" where
  "loop_calls es =
     concat (map (\<lambda>e. if created e then round_calls e else [Socket (ai_family (fst e))]) es)"

section \<open>get_self_clock_id\<close>

text \<open>
  An entry of the list that \<^verbatim>\<open>getifaddrs\<close> returns: the name of the interface and its
  address, which may be \<^verbatim>\<open>NULL\<close>. For an address of family \<^verbatim>\<open>AF_PACKET\<close> the source
  reads it as a \<^verbatim>\<open>struct sockaddr_ll\<close>, whose fields \<^verbatim>\<open>sll_halen\<close> (an
  \<^verbatim>\<open>unsigned char\<close>) and \<^verbatim>\<open>sll_addr\<close> (8 bytes) are kept here.
\<close>

record sockaddr =
  sa_family :: "16 word"
  sll_halen :: "8 word"
  sll_addr :: "8 word list"

record ifaddrs =
  ifa_name :: string
  ifa_addr :: "sockaddr option"

definition AF_PACKET :: "16 word" where
  "AF_PACKET = 17"

text \<open>
  \<^verbatim>\<open>memcpy(dst, src, n)\<close> on arrays: the first \<open>n\<close> bytes of \<open>dst\<close> are replaced. A
  copy longer than either array is \<open>Out_of_bounds\<close>.
\<close>

definition memcpy :: "'a list \<Rightarrow> 'a list \<Rightarrow> nat \<Rightarrow> fault + 'a list" where
  "memcpy dst src n =
     (if n \<le> length dst \<and> n \<le> length src then Inr (take n src @ drop n dst)
      else Inl Out_of_bounds)"

text \<open>
  The locals \<^verbatim>\<open>found\<close>, \<^verbatim>\<open>len\<close> and \<^verbatim>\<open>local_clock_id\<close>.
\<close>

record scan =
  found :: int
  len :: int
  local_clock_id :: "8 word list"

text \<open>
  One round of the loop, lines 180 to 187.
\<close>

definition scan_interface :: "ifaddrs \<Rightarrow> scan \<Rightarrow> fault + scan" where
  "scan_interface ifa st =
     (case ifa_addr ifa of
        None \<Rightarrow> Inr st
      | Some s \<Rightarrow>
          if sa_family s = AF_PACKET then
            if ifa_name ifa \<noteq> ''lo'' \<and> found st = 0 then
              (case memcpy (local_clock_id st) (sll_addr s) (unat (sll_halen s)) of
                 Inl e \<Rightarrow> Inl e
               | Inr bytes \<Rightarrow>
                   Inr \<lparr>found = 1, len = uint (sll_halen s), local_clock_id = bytes\<rparr>)
            else Inr st
          else Inr st)"

text \<open>
  The loop \<^verbatim>\<open>for (ifa = ifaddr; ifa != NULL; ifa = ifa->ifa_next)\<close>.
\<close>

fun scan_interfaces :: "ifaddrs list \<Rightarrow> scan \<Rightarrow> fault + scan" where
  "scan_interfaces [] st = Inr st"
| "scan_interfaces (ifa # rest) st =
     (case scan_interface ifa st of
        Inl e \<Rightarrow> Inl e
      | Inr st' \<Rightarrow> scan_interfaces rest st')"

text \<open>
  Lines 195 to 199, one assignment after the other.
\<close>

definition eui48_to_eui64 :: "8 word list \<Rightarrow> 8 word list" where
  "eui48_to_eui64 id0 =
     (let id1 = id0[7 := id0 ! 5];
          id2 = id1[6 := id1 ! 4];
          id3 = id2[5 := id2 ! 3];
          id4 = id3[3 := 0xFF];
          id5 = id4[4 := 0xFE]
      in id5)"

text \<open>
  The whole function. In line 175, \<^verbatim>\<open>status = getifaddrs(&ifaddr) == -1\<close> assigns the
  truth value of the comparison. \<^verbatim>\<open>local_clock_id\<close> is not initialised:
  \<open>uninitialised\<close> gives the bytes found there. The result stands for the
  \<^verbatim>\<open>uint64_t\<close> that line 203 fills by \<^verbatim>\<open>memcpy\<close>: its eight bytes in memory order.
\<close>

definition get_self_clock_id ::
  "(int \<Rightarrow> string) \<Rightarrow> int \<Rightarrow> ifaddrs list \<Rightarrow> (nat \<Rightarrow> 8 word) \<Rightarrow> fault + 8 word list" where
  "get_self_clock_id gai_strerror getifaddrs_ret ifaddr uninitialised =
     (let status = (if getifaddrs_ret = - 1 then 1 else 0 :: int) in
      if status \<noteq> 0 then Inl (Died (''getifaddrs: '' @ gai_strerror status))
      else
        (case scan_interfaces ifaddr
                \<lparr>found = 0, len = 0, local_clock_id = map uninitialised [0..<8]\<rparr> of
           Inl e \<Rightarrow> Inl e
         | Inr st \<Rightarrow>
             Inr (if len st = 6 then eui48_to_eui64 (local_clock_id st)
                  else local_clock_id st)))"

text \<open>
  The interface that the loop takes, if none was taken before: it has a link-layer
  address and is not named \<^verbatim>\<open>lo\<close>.
\<close>

definition eligible :: "ifaddrs \<Rightarrow> bool" where
  "eligible ifa =
     (case ifa_addr ifa of
        None \<Rightarrow> False
      | Some s \<Rightarrow> sa_family s = AF_PACKET \<and> ifa_name ifa \<noteq> ''lo'')"

section \<open>Example inputs\<close>

text \<open>
  Address entries with the replies of the operating system: an IPv4 and an IPv6
  entry for which every call succeeds, an IPv6 entry on a host without IPv6, and an
  IPv6 entry whose \<^verbatim>\<open>bind\<close> is refused.
\<close>

definition ipv4_ok :: "addrinfo \<times> replies" where
  "ipv4_ok =
     (\<lparr>ai_family = AF_INET\<rparr>,
      \<lparr>socket_ret = 5, v6only_ret = 0, bind_ret = 0, timestamping_ret = 0, getfl_ret = 2,
       strerror_errno = ''Success''\<rparr>)"

definition ipv6_ok :: "addrinfo \<times> replies" where
  "ipv6_ok =
     (\<lparr>ai_family = AF_INET6\<rparr>,
      \<lparr>socket_ret = 6, v6only_ret = 0, bind_ret = 0, timestamping_ret = 0, getfl_ret = 2,
       strerror_errno = ''Success''\<rparr>)"

definition ipv6_unsupported :: "addrinfo \<times> replies" where
  "ipv6_unsupported =
     (\<lparr>ai_family = AF_INET6\<rparr>,
      \<lparr>socket_ret = - 1, v6only_ret = 0, bind_ret = 0, timestamping_ret = 0, getfl_ret = 0,
       strerror_errno = ''Address family not supported by protocol''\<rparr>)"

definition ipv6_bind_refused :: "addrinfo \<times> replies" where
  "ipv6_bind_refused =
     (\<lparr>ai_family = AF_INET6\<rparr>,
      \<lparr>socket_ret = 6, v6only_ret = 0, bind_ret = - 1, timestamping_ret = 0, getfl_ret = 2,
       strerror_errno = ''Permission denied''\<rparr>)"

text \<open>
  A bundle of capacity 4, empty, and the same bundle after the sockets of port 319
  have been opened.
\<close>

definition empty_run :: run where
  "empty_run =
     \<lparr>calls = [], logged = [],
      sockets_open_stuff =
        \<lparr>sockets = [\<lparr>number = 0, port = 0\<rparr>, \<lparr>number = 0, port = 0\<rparr>,
                    \<lparr>number = 0, port = 0\<rparr>, \<lparr>number = 0, port = 0\<rparr>],
         sockets_open = 0\<rparr>\<rparr>"

definition run_after_319 :: run where
  "run_after_319 =
     \<lparr>calls = [], logged = [],
      sockets_open_stuff =
        \<lparr>sockets = [\<lparr>number = 3, port = 319\<rparr>, \<lparr>number = 4, port = 319\<rparr>,
                    \<lparr>number = 0, port = 0\<rparr>, \<lparr>number = 0, port = 0\<rparr>],
         sockets_open = 2\<rparr>\<rparr>"

text \<open>
  Interfaces: the loopback, an Ethernet interface with its IPv4 address and with its
  link-layer address AA:BB:CC:DD:EE:FF, and an interface with an address of 8 bytes.
\<close>

definition lo_interface :: ifaddrs where
  "lo_interface =
     \<lparr>ifa_name = ''lo'',
      ifa_addr = Some \<lparr>sa_family = AF_PACKET, sll_halen = 6, sll_addr = [0, 0, 0, 0, 0, 0, 0, 0]\<rparr>\<rparr>"

definition eth0_inet :: ifaddrs where
  "eth0_inet =
     \<lparr>ifa_name = ''eth0'',
      ifa_addr = Some \<lparr>sa_family = 2, sll_halen = 0, sll_addr = [0, 0, 0, 0, 0, 0, 0, 0]\<rparr>\<rparr>"

definition eth0_packet :: ifaddrs where
  "eth0_packet =
     \<lparr>ifa_name = ''eth0'',
      ifa_addr = Some \<lparr>sa_family = AF_PACKET, sll_halen = 6,
                        sll_addr = [0xAA, 0xBB, 0xCC, 0xDD, 0xEE, 0xFF, 0, 0]\<rparr>\<rparr>"

definition eui64_packet :: ifaddrs where
  "eui64_packet =
     \<lparr>ifa_name = ''wpan0'',
      ifa_addr = Some \<lparr>sa_family = AF_PACKET, sll_halen = 8,
                        sll_addr = [0x00, 0x12, 0x4B, 0x00, 0x14, 0xB5, 0x2D, 0x7F]\<rparr>\<rparr>"

section \<open>Properties of debug_print_buffer\<close>

subsection \<open>The characters written\<close>

lemma hex_upper_nonempty: "hex_upper n \<noteq> []"
  by (induction n rule: hex_upper.induct) (subst hex_upper.simps, simp)

lemma length_fmt_02X: "2 \<le> length (fmt_02X v)"
  using hex_upper_nonempty [of "unat v"] by (cases "hex_upper (unat v)") (auto simp: fmt_02X_def Let_def)

lemma length_hex_pair: "length (hex_pair char_signed c) = 2"
  using length_fmt_02X [of "char_as_unsigned char_signed c"] by (simp add: hex_pair_def)

lemma hex_digit_in_digits: "d < 16 \<Longrightarrow> hex_digit d \<in> set ''0123456789ABCDEF''"
  unfolding hex_digit_def by (rule nth_mem) simp

lemma hex_upper_digits: "set (hex_upper n) \<subseteq> set ''0123456789ABCDEF''"
proof (induction n rule: hex_upper.induct)
  case (1 n)
  show ?case
  proof (cases "n < 16")
    case True
    then show ?thesis
      using hex_digit_in_digits [of n] by (subst hex_upper.simps) simp
  next
    case False
    have "hex_digit (n mod 16) \<in> set ''0123456789ABCDEF''"
      by (rule hex_digit_in_digits) simp
    with False 1 show ?thesis
      by (subst hex_upper.simps) simp
  qed
qed

lemma fmt_02X_digits: "set (fmt_02X v) \<subseteq> set ''0123456789ABCDEF''"
  using hex_upper_digits [of "unat v"] by (auto simp: fmt_02X_def Let_def)

lemma hex_pair_digits: "set (hex_pair char_signed c) \<subseteq> set ''0123456789ABCDEF''"
  using fmt_02X_digits [of "char_as_unsigned char_signed c"] set_take_subset [of 2 "fmt_02X (char_as_unsigned char_signed c)"]
  unfolding hex_pair_def by blast

lemma NUL_notin_hex_pair: "NUL \<notin> set (hex_pair char_signed c)"
  using hex_pair_digits [of char_signed c] by (auto simp: NUL_def)

lemma NUL_notin_separator: "NUL \<notin> set (separator buf_len obfc)"
  by (simp add: separator_def NUL_def)

lemma NUL_notin_piece: "NUL \<notin> set (piece char_signed buf buf_len obfc)"
  by (simp add: piece_def NUL_notin_hex_pair NUL_notin_separator)

lemma mod_32_4: "(n::nat) mod 32 = 31 \<Longrightarrow> n mod 4 = 3"
proof -
  assume a: "n mod 32 = 31"
  have "n mod 32 mod 4 = n mod 4" by (simp add: mod_mod_cancel)
  with a show ?thesis by simp
qed

lemma mod_16_4: "(n::nat) mod 16 = 15 \<Longrightarrow> n mod 4 = 3"
proof -
  assume a: "n mod 16 = 15"
  have "n mod 16 mod 4 = n mod 4" by (simp add: mod_mod_cancel)
  with a show ?thesis by simp
qed

lemma length_separator: "length (separator buf_len obfc) \<le> (if obfc mod 4 = 3 then 4 else 0)"
  by (auto simp: separator_def dest: mod_32_4 mod_16_4)

lemma rendered_step:
  "i < buf_len \<Longrightarrow>
   rendered char_signed buf buf_len i =
   piece char_signed buf buf_len i @ rendered char_signed buf buf_len (Suc i)"
  by (simp add: rendered_def upt_conv_Cons)

lemma rendered_end: "buf_len \<le> i \<Longrightarrow> rendered char_signed buf buf_len i = []"
  by (simp add: rendered_def)

lemma NUL_notin_rendered: "NUL \<notin> set (rendered char_signed buf buf_len i)"
  by (simp add: rendered_def NUL_notin_piece)

lemma length_piece:
  "length (piece char_signed buf buf_len i) \<le> 2 + (if i mod 4 = 3 then 4 else 0)"
  using length_separator [of buf_len i] by (simp add: piece_def length_hex_pair)

lemma div4_Suc: "4 * (Suc i div 4) = 4 * (i div 4) + (if i mod 4 = 3 then 4 else 0)"
  by presburger

lemma length_rendered_from:
  "i \<le> buf_len \<Longrightarrow>
   length (rendered char_signed buf buf_len i) + (2 * i + 4 * (i div 4))
   \<le> 2 * buf_len + 4 * (buf_len div 4)"
proof (induction "buf_len - i" arbitrary: i)
  case 0
  then show ?case by (simp add: rendered_end)
next
  case (Suc k)
  then have lt: "i < buf_len" and k: "k = buf_len - Suc i" and le: "Suc i \<le> buf_len"
    by simp_all
  from Suc.hyps(1) [OF k le]
  have "length (rendered char_signed buf buf_len (Suc i)) + (2 * Suc i + 4 * (Suc i div 4))
        \<le> 2 * buf_len + 4 * (buf_len div 4)" .
  with length_piece [of char_signed buf buf_len i] div4_Suc [of i]
  show ?case
    by (simp add: rendered_step [OF lt] split: if_splits)
qed

lemma length_rendered: "length (rendered char_signed buf buf_len 0) \<le> 3 * buf_len"
proof -
  have "length (rendered char_signed buf buf_len 0) \<le> 2 * buf_len + 4 * (buf_len div 4)"
    using length_rendered_from [of 0 buf_len char_signed buf] by simp
  also have "\<dots> \<le> 3 * buf_len" by simp
  finally show ?thesis .
qed

subsection \<open>The block after the loop\<close>

text \<open>
  The block is split at the write position: \<open>A\<close> is what has been written, \<open>B\<close> is
  the room left.
\<close>

lemma poke_append:
  assumes "length A = off" and "length s \<le> length B"
  shows "poke (A @ B) off s = Inr (A @ s @ drop (length s) B)"
  using assms by (simp add: poke_def)

lemma snprintf_append:
  assumes "length A = off" and "length s < sz" and "length s < length B"
  shows "snprintf (A @ B) off sz s = Inr (A @ s @ NUL # drop (length s + 1) B)"
proof -
  have "take (sz - 1) s = s" using assms(2) by simp
  then have "snprintf (A @ B) off sz s = poke (A @ B) off (s @ [NUL])"
    by (simp add: snprintf_def)
  also have "\<dots> = Inr (A @ (s @ [NUL]) @ drop (length (s @ [NUL])) B)"
    by (rule poke_append) (use assms in simp_all)
  finally show ?thesis by simp
qed

lemma emit_append:
  assumes "length A = obfp" and "length s < sz" and "length s < length B"
  shows "emit sz s adv (obfp, A @ B) = Inr (obfp + adv, A @ s @ NUL # drop (length s + 1) B)"
  by (simp add: emit_def snprintf_append [OF assms])

lemma emit_hex_pair:
  assumes "length A = obfp" and "3 \<le> length B"
  shows "emit 3 (fmt_02X (char_as_unsigned char_signed c)) 2 (obfp, A @ B) =
         Inr (obfp + 2, (A @ hex_pair char_signed c) @ NUL # drop 3 B)"
proof -
  have "snprintf (A @ B) obfp 3 (fmt_02X (char_as_unsigned char_signed c)) =
        poke (A @ B) obfp (hex_pair char_signed c @ [NUL])"
    by (simp add: snprintf_def hex_pair_def)
  also have "\<dots> = Inr (A @ (hex_pair char_signed c @ [NUL]) @
                        drop (length (hex_pair char_signed c @ [NUL])) B)"
    by (rule poke_append) (use assms length_hex_pair in simp_all)
  finally show ?thesis by (simp add: emit_def length_hex_pair)
qed

lemma format_byte_append:
  assumes "length A = obfp"
    and "length (piece char_signed buf buf_len obfc) < length B"
  shows "format_byte char_signed buf buf_len obfc (obfp, A @ B) =
         Inr (obfp + length (piece char_signed buf buf_len obfc),
              A @ piece char_signed buf buf_len obfc @
              NUL # drop (length (piece char_signed buf buf_len obfc) + 1) B)"
proof -
  let ?h = "hex_pair char_signed (buf obfc)"
  let ?s = "separator buf_len obfc"
  let ?st1 = "(obfp + 2, (A @ ?h) @ NUL # drop 3 B)"
  have lh: "length ?h = 2" by (rule length_hex_pair)
  have room: "2 + length ?s < length B"
    using assms(2) lh by (simp add: piece_def)
  then have "3 \<le> length B" by simp
  note first = emit_hex_pair [OF assms(1) this, of char_signed "buf obfc"]
  have A2: "length (A @ ?h) = obfp + 2" using assms(1) lh by simp
  have tail: "drop (length ?s + 1) (NUL # drop 3 B) = drop (length (?h @ ?s) + 1) B"
  proof -
    have "drop (length ?s + 1) (NUL # drop 3 B) = drop (length ?s) (drop 3 B)"
      by simp
    also have "\<dots> = drop (length ?s + 3) B"
      by (simp only: drop_drop)
    also have "length ?s + 3 = length (?h @ ?s) + 1"
      using lh by simp
    finally show ?thesis .
  qed
  have second: "emit sz ?s adv ?st1 =
        Inr (obfp + 2 + adv, (A @ ?h) @ ?s @ NUL # drop (length (?h @ ?s) + 1) B)"
    if "length ?s < sz" for sz adv
    unfolding tail [symmetric]
    by (rule emit_append [OF A2 that]) (use room in simp)
  have shape: "Inr (obfp + 2 + length ?s, (A @ ?h) @ ?s @ NUL # drop (length (?h @ ?s) + 1) B) =
      Inr (obfp + length (piece char_signed buf buf_len obfc),
           A @ piece char_signed buf buf_len obfc @
           NUL # drop (length (piece char_signed buf buf_len obfc) + 1) B)"
    using lh by (simp add: piece_def)
  have fb: "format_byte char_signed buf buf_len obfc (obfp, A @ B) =
     (if obfc \<noteq> buf_len - 1 then
        if obfc mod 32 = 31 then emit 5 '' || '' 4 ?st1
        else if obfc mod 16 = 15 then emit 4 '' | '' 3 ?st1
        else if obfc mod 4 = 3 then emit 2 '' '' 1 ?st1
        else Inr ?st1
      else Inr ?st1)"
    by (simp add: format_byte_def first)
  consider (last) "obfc = buf_len - 1"
    | (c32) "obfc \<noteq> buf_len - 1" "obfc mod 32 = 31"
    | (c16) "obfc \<noteq> buf_len - 1" "obfc mod 32 \<noteq> 31" "obfc mod 16 = 15"
    | (c4) "obfc \<noteq> buf_len - 1" "obfc mod 32 \<noteq> 31" "obfc mod 16 \<noteq> 15" "obfc mod 4 = 3"
    | (none) "obfc \<noteq> buf_len - 1" "obfc mod 32 \<noteq> 31" "obfc mod 16 \<noteq> 15" "obfc mod 4 \<noteq> 3"
    by blast
  then have "format_byte char_signed buf buf_len obfc (obfp, A @ B) =
      Inr (obfp + 2 + length ?s, (A @ ?h) @ ?s @ NUL # drop (length (?h @ ?s) + 1) B)"
  proof cases
    case last
    then have s: "?s = []" by (simp add: separator_def)
    have "format_byte char_signed buf buf_len obfc (obfp, A @ B) = Inr ?st1"
      unfolding fb using last by simp
    then show ?thesis unfolding s using lh by simp
  next
    case none
    then have s: "?s = []" by (simp add: separator_def)
    have "format_byte char_signed buf buf_len obfc (obfp, A @ B) = Inr ?st1"
      unfolding fb using none by simp
    then show ?thesis unfolding s using lh by simp
  next
    case c4
    then have s: "?s = '' ''" by (simp add: separator_def)
    have e: "emit 2 ?s 1 ?st1 =
        Inr (obfp + 2 + 1, (A @ ?h) @ ?s @ NUL # drop (length (?h @ ?s) + 1) B)"
      by (rule second) (simp add: s)
    have adv: "obfp + 2 + 1 = obfp + 2 + length ?s" by (simp add: s)
    have "format_byte char_signed buf buf_len obfc (obfp, A @ B) = emit 2 ?s 1 ?st1"
      unfolding fb using c4 by (simp add: s)
    then show ?thesis by (simp only: e adv)
  next
    case c16
    then have s: "?s = '' | ''" by (simp add: separator_def)
    have e: "emit 4 ?s 3 ?st1 =
        Inr (obfp + 2 + 3, (A @ ?h) @ ?s @ NUL # drop (length (?h @ ?s) + 1) B)"
      by (rule second) (simp add: s)
    have adv: "obfp + 2 + 3 = obfp + 2 + length ?s" by (simp add: s)
    have "format_byte char_signed buf buf_len obfc (obfp, A @ B) = emit 4 ?s 3 ?st1"
      unfolding fb using c16 by (simp add: s)
    then show ?thesis by (simp only: e adv)
  next
    case c32
    then have s: "?s = '' || ''" by (simp add: separator_def)
    have e: "emit 5 ?s 4 ?st1 =
        Inr (obfp + 2 + 4, (A @ ?h) @ ?s @ NUL # drop (length (?h @ ?s) + 1) B)"
      by (rule second) (simp add: s)
    have adv: "obfp + 2 + 4 = obfp + 2 + length ?s" by (simp add: s)
    have "format_byte char_signed buf buf_len obfc (obfp, A @ B) = emit 5 ?s 4 ?st1"
      unfolding fb using c32 by (simp add: s)
    then show ?thesis by (simp only: e adv)
  qed
  then show ?thesis by (simp only: shape)
qed

lemma format_loop_append:
  assumes "buf_len < 2 ^ 32"
  shows "length A = obfp \<Longrightarrow>
         length (rendered char_signed buf buf_len i) < length B \<Longrightarrow>
         \<exists>B'. format_loop char_signed buf buf_len i (obfp, A @ B) =
                 Inr (obfp + length (rendered char_signed buf buf_len i),
                      A @ rendered char_signed buf buf_len i @ B')
              \<and> length B' = length B - length (rendered char_signed buf buf_len i)"
proof (induction "buf_len - i" arbitrary: i A B obfp)
  case 0
  then have "buf_len \<le> i" by simp
  then show ?case
    by (subst format_loop.simps) (simp add: rendered_end)
next
  case (Suc k)
  let ?p = "piece char_signed buf buf_len i"
  let ?r = "rendered char_signed buf buf_len (Suc i)"
  let ?B1 = "NUL # drop (length ?p + 1) B"
  from Suc.hyps(2) have lt: "i < buf_len" and k: "k = buf_len - Suc i" by simp_all
  have step: "rendered char_signed buf buf_len i = ?p @ ?r"
    by (rule rendered_step [OF lt])
  have room: "length ?p + length ?r < length B"
    using Suc.prems(2) by (simp add: step)
  then have "length ?p < length B" by simp
  note one = format_byte_append [OF Suc.prems(1) this]
  have "Suc i < 2 ^ 32"
    using lt assms by simp
  then have next_counter: "Suc i mod 4294967296 = Suc i"
    by simp
  have A1: "length (A @ ?p) = obfp + length ?p"
    using Suc.prems(1) by simp
  have B1: "length ?r < length ?B1"
    using room by simp
  from Suc.hyps(1) [OF k A1 B1]
  obtain B' where
    rest: "format_loop char_signed buf buf_len (Suc i) (obfp + length ?p, (A @ ?p) @ ?B1) =
           Inr (obfp + length ?p + length ?r, (A @ ?p) @ ?r @ B')"
    and len: "length B' = length ?B1 - length ?r"
    by blast
  have "format_loop char_signed buf buf_len i (obfp, A @ B) =
        format_loop char_signed buf buf_len (Suc i) (obfp + length ?p, (A @ ?p) @ ?B1)"
    by (subst format_loop.simps) (simp add: lt one next_counter)
  with rest have "format_loop char_signed buf buf_len i (obfp, A @ B) =
        Inr (obfp + length (?p @ ?r), A @ (?p @ ?r) @ B')"
    by (simp add: add.assoc)
  moreover have "length B' = length B - length (?p @ ?r)"
    using len room by simp
  ultimately show ?case
    unfolding step by blast
qed

lemma c_string_terminated: "NUL \<notin> set s \<Longrightarrow> c_string (s @ NUL # rest) = s"
  by (induction s) (auto simp: c_string_def)

lemma format_buffer_rendered:
  assumes "buf_len < 2 ^ 32"
    and "length (rendered char_signed buf buf_len 0) < length obf"
  shows "\<exists>rest. format_buffer char_signed obf buf buf_len =
                  Inr (rendered char_signed buf buf_len 0 @ NUL # rest)
              \<and> length (rendered char_signed buf buf_len 0 @ NUL # rest) = length obf"
proof -
  let ?r = "rendered char_signed buf buf_len 0"
  from format_loop_append [OF assms(1), of "[]" 0 char_signed buf 0 obf] assms(2)
  obtain B' where
    loop: "format_loop char_signed buf buf_len 0 (0, obf) = Inr (length ?r, ?r @ B')"
    and len: "length B' = length obf - length ?r"
    by auto
  from len assms(2) obtain c rest where B': "B' = c # rest"
    by (cases B') auto
  have "poke (?r @ B') (length ?r) [NUL] = Inr (?r @ [NUL] @ drop (length [NUL]) B')"
    by (rule poke_append) (simp_all add: B')
  then have "format_buffer char_signed obf buf buf_len = Inr (?r @ NUL # rest)"
    by (simp add: format_buffer_def loop B')
  moreover have "length (?r @ NUL # rest) = length obf"
    using len assms(2) by (simp add: B')
  ultimately show ?thesis by blast
qed

lemma char_to_int_eq:
  assumes "0 \<le> k" and "k < 128"
  shows "(char_to_int char_signed c = k) = (c = word_of_int k)"
proof (cases char_signed)
  case True
  have "sint c = k \<Longrightarrow> c = word_of_int k"
    by (metis scast_eq scast_id)
  moreover have "sint (word_of_int k :: 8 word) = k"
    using assms by (simp add: int_word_sint)
  ultimately show ?thesis using True by (auto simp: char_to_int_def)
next
  case False
  have "uint c = k \<Longrightarrow> c = word_of_int k"
    using word_of_int_uint [of c] by simp
  moreover have "uint (word_of_int k :: 8 word) = k"
    using assms by (simp add: uint_word_of_int)
  ultimately show ?thesis using False by (auto simp: char_to_int_def)
qed

lemma log_tagged_byte:
  "log_tagged level (char_to_int char_signed c) obf lg =
     (if c = 0x10 then debug level (''SYNC: '' @ [dquote] @ obf @ [dquote] @ ''.'') lg
      else if c = 0x18 then debug level (''FLUP: '' @ [dquote] @ obf @ [dquote] @ ''.'') lg
      else if c = 0x19 then debug level (''DRSP: '' @ [dquote] @ obf @ [dquote] @ ''.'') lg
      else if c = 0x1B then debug level (''ANNC: '' @ [dquote] @ obf @ [dquote] @ ''.'') lg
      else if c = 0x1C then debug level (''SGNL: '' @ [dquote] @ obf @ [dquote] @ ''.'') lg
      else debug 1 (''XXXX  '' @ [dquote] @ obf @ [dquote] @ ''.'') lg)"
  unfolding log_tagged_def
  by (simp only: char_to_int_eq [of "0x10"] char_to_int_eq [of "0x18"] char_to_int_eq [of "0x19"]
        char_to_int_eq [of "0x1B"] char_to_int_eq [of "0x1C"]) simp

lemma size_fits: "buf_len < 2 ^ 32 \<Longrightarrow> (buf_len * 4 + 1) mod 2 ^ 64 = buf_len * 4 + (1::nat)"
  by simp

lemma debug_print_buffer_Some:
  assumes "buf_len < 2 ^ 32"
  shows "debug_print_buffer char_signed (Some junk) level buf buf_len =
         Inr (log_tagged level (char_to_int char_signed (buf 0))
                (rendered char_signed buf buf_len 0) [])"
proof -
  let ?obf = "map junk [0..<buf_len * 4 + 1]"
  have "length (rendered char_signed buf buf_len 0) < length ?obf"
    using length_rendered [of char_signed buf buf_len] by simp
  from format_buffer_rendered [OF assms this]
  obtain rest where
    "format_buffer char_signed ?obf buf buf_len =
     Inr (rendered char_signed buf buf_len 0 @ NUL # rest)"
    by blast
  moreover have "malloc (Some junk) ((buf_len * 4 + 1) mod 2 ^ 64) = Some ?obf"
    by (simp only: size_fits [OF assms] malloc_def option.map)
  ultimately show ?thesis
    by (simp add: debug_print_buffer_def c_string_terminated NUL_notin_rendered del: upt_Suc)
qed

subsection \<open>The rendering of a byte and the specification\<close>

text \<open>
  Where \<^verbatim>\<open>char\<close> is unsigned, and for bytes below 0x80 where it is signed, the text
  written is the one the specification describes.
\<close>

lemma sint_low:
  fixes b :: "8 word"
  assumes "b < 0x80"
  shows "sint b = uint b"
proof -
  have "uint b < 128"
    using assms by (simp add: word_less_alt)
  moreover have "- (2 ^ 7) \<le> uint b"
    by (rule order_trans [of _ 0]) simp_all
  ultimately have "signed_take_bit 7 (uint b) = uint b"
    by (intro signed_take_bit_int_eq_self) simp_all
  then show ?thesis
    by (simp add: sint_uint)
qed

lemma uint_char_as_unsigned:
  assumes "\<not> char_signed \<or> c < 0x80"
  shows "uint (char_as_unsigned char_signed c) = uint c"
proof -
  have c: "char_to_int char_signed c = uint c"
    using assms sint_low [of c] by (auto simp: char_to_int_def)
  have "uint c < 2 ^ 8"
    using uint_lt2p [of c] by simp
  then have "uint c < 2 ^ 32"
    by simp
  moreover have "0 \<le> uint c" by simp
  ultimately have "uint c mod 2 ^ 32 = uint c"
    by (intro mod_pos_pos_trivial)
  then show ?thesis
    by (simp only: char_as_unsigned_def c uint_word_of_int) simp
qed

lemma unat_char_as_unsigned:
  assumes "\<not> char_signed \<or> c < 0x80"
  shows "unat (char_as_unsigned char_signed c) = unat c"
proof -
  have "unat (char_as_unsigned char_signed c) = nat (uint (char_as_unsigned char_signed c))"
    by (rule unat_eq_nat_uint)
  also have "\<dots> = nat (uint c)"
    by (simp only: uint_char_as_unsigned [OF assms])
  also have "\<dots> = unat c"
    by (rule unat_eq_nat_uint [symmetric])
  finally show ?thesis .
qed

lemma hex_digit_0: "hex_digit 0 = CHR ''0''"
  by (simp add: hex_digit_def)

lemma hex_upper_byte:
  assumes "m < 256"
  shows "replicate (2 - length (hex_upper m)) (CHR ''0'') @ hex_upper m =
         [hex_digit (m div 16), hex_digit (m mod 16)]"
proof (cases "m < 16")
  case True
  then have "hex_upper m = [hex_digit m]"
    by (subst hex_upper.simps) simp
  with True show ?thesis
    by (simp add: hex_digit_0)
next
  case False
  with assms have "m div 16 < 16" by simp
  then have "hex_upper (m div 16) = [hex_digit (m div 16)]"
    by (subst hex_upper.simps) simp
  with False have "hex_upper m = [hex_digit (m div 16), hex_digit (m mod 16)]"
    by (subst hex_upper.simps) simp
  then show ?thesis by simp
qed

lemma hex_pair_as_specified:
  assumes "\<not> char_signed \<or> c < 0x80"
  shows "hex_pair char_signed c = spec_hex2 c"
proof -
  have "unat c < 2 ^ LENGTH(8)"
    by (rule unsigned_less)
  then have "unat c < 256"
    by simp
  then show ?thesis
    using hex_upper_byte [of "unat c"]
    by (simp add: hex_pair_def fmt_02X_def Let_def spec_hex2_def
        unat_char_as_unsigned [OF assms])
qed

lemma separator_as_specified:
  assumes "i < n"
  shows "separator n i = spec_separator n (Suc i)"
proof -
  have "(i \<noteq> n - 1) = (Suc i \<noteq> n)"
    using assms by auto
  moreover have "(i mod 32 = 31) = (Suc i mod 32 = 0)"
    by (simp add: mod_Suc)
  moreover have "(i mod 16 = 15) = (Suc i mod 16 = 0)"
    by (simp add: mod_Suc)
  moreover have "(i mod 4 = 3) = (Suc i mod 4 = 0)"
    by (simp add: mod_Suc)
  ultimately show ?thesis
    by (simp only: separator_def spec_separator_def) simp
qed

lemma rendered_as_specified:
  assumes "\<not> char_signed \<or> (\<forall>i < buf_len. buf i < 0x80)"
  shows "rendered char_signed buf buf_len 0 = spec_dump (map buf [0..<buf_len])"
proof -
  have "[1..<buf_len + 1] = map Suc [0..<buf_len]"
    by (simp add: map_Suc_upt del: upt_Suc)
  then have "spec_dump (map buf [0..<buf_len]) =
      concat (map (\<lambda>i. spec_hex2 (map buf [0..<buf_len] ! i) @ spec_separator buf_len (Suc i))
                  [0..<buf_len])"
    by (simp add: spec_dump_def comp_def del: upt_Suc)
  also have "\<dots> = concat (map (piece char_signed buf buf_len) [0..<buf_len])"
  proof -
    have "spec_hex2 (map buf [0..<buf_len] ! i) @ spec_separator buf_len (Suc i) =
          piece char_signed buf buf_len i" if "i \<in> set [0..<buf_len]" for i
    proof -
      from that have i: "i < buf_len" by simp
      with assms have "\<not> char_signed \<or> buf i < 0x80" by blast
      from hex_pair_as_specified [OF this] separator_as_specified [OF i] i
      show ?thesis by (simp add: piece_def del: upt_Suc)
    qed
    then have "map (\<lambda>i. spec_hex2 (map buf [0..<buf_len] ! i) @ spec_separator buf_len (Suc i))
                [0..<buf_len] =
               map (piece char_signed buf buf_len) [0..<buf_len]"
      by (intro map_cong refl)
    then show ?thesis by (simp only:)
  qed
  finally show ?thesis
    by (simp add: rendered_def)
qed

lemma rendered_ANNC_20:
  "rendered False (\<lambda>i. if i = 0 then 0x1B else 0) 20 0 =
   ''1B000000 00000000 00000000 00000000 | 00000000''"
  by code_simp

lemma hex_pair_signed_0x99: "hex_pair True 0x99 = ''FF''"
  by (simp add: hex_pair_def fmt_02X_def char_as_unsigned_def char_to_int_def
      hex_upper.simps hex_digit_def)

lemma hex_pair_unsigned_0x99: "hex_pair False 0x99 = ''99''"
  by (simp add: hex_pair_def fmt_02X_def char_as_unsigned_def char_to_int_def
      hex_upper.simps hex_digit_def)

lemma rendered_single: "rendered char_signed buf (Suc 0) 0 = hex_pair char_signed (buf 0)"
  by (simp add: rendered_def piece_def separator_def)

subsection \<open>The loop counter past its range\<close>

text \<open>
  The only fault of the formatter is a store outside the block. When \<^verbatim>\<open>buf_len\<close> is
  2^32 or more, the counter wraps to 0 before it reaches \<^verbatim>\<open>buf_len\<close>, the condition
  \<^verbatim>\<open>obfc < buf_len\<close> of line 126 stays true, and the loop ends only when a store leaves
  the block.
\<close>

lemma poke_fault: "poke mem off s = Inl e \<Longrightarrow> e = Out_of_bounds"
  by (simp add: poke_def split: if_splits)

lemma emit_fault: "emit sz s adv st = Inl e \<Longrightarrow> e = Out_of_bounds"
  by (cases st) (auto simp: emit_def snprintf_def split: sum.splits dest: poke_fault)

lemma format_byte_fault:
  "format_byte char_signed buf buf_len obfc st = Inl e \<Longrightarrow> e = Out_of_bounds"
  by (auto simp: format_byte_def split: sum.splits if_splits dest: emit_fault)

lemma format_loop_wraps:
  "2 ^ 32 \<le> buf_len \<Longrightarrow> obfc < 2 ^ 32 \<Longrightarrow>
   format_loop char_signed buf buf_len obfc st = Inl Out_of_bounds"
proof (induction char_signed buf buf_len obfc st rule: format_loop.induct)
  case (1 char_signed buf buf_len obfc st)
  from "1.prems" have inside: "obfc < buf_len" by simp
  have next_counter: "(obfc + 1) mod 2 ^ 32 < (2 ^ 32 :: nat)" by simp
  show ?case
  proof (cases "format_byte char_signed buf buf_len obfc st")
    case (Inl e)
    with format_byte_fault [of char_signed buf buf_len obfc st e] inside show ?thesis
      by (subst format_loop.simps) simp
  next
    case (Inr st')
    from "1.IH" [OF inside Inr "1.prems"(1) next_counter] Inr inside show ?thesis
      by (subst format_loop.simps) simp
  qed
qed

lemma format_buffer_wraps:
  "2 ^ 32 \<le> buf_len \<Longrightarrow> format_buffer char_signed obf buf buf_len = Inl Out_of_bounds"
  by (simp add: format_buffer_def format_loop_wraps)

lemma debug_print_buffer_wraps:
  "2 ^ 32 \<le> buf_len \<Longrightarrow>
   debug_print_buffer char_signed (Some junk) level buf buf_len = Inl Out_of_bounds"
  by (simp add: debug_print_buffer_def malloc_def format_buffer_wraps del: upt_Suc)

lemma debug_print_buffer_None:
  "debug_print_buffer char_signed None level buf buf_len = Inr []"
  by (simp add: debug_print_buffer_def malloc_def)

subsection \<open>Claims about debug_print_buffer\<close>

text \<open>
  C2. The claim is that every byte is rendered as the two upper-case hex digits of its
  value. \<open>rendered_as_specified\<close> shows this where plain \<^verbatim>\<open>char\<close> is unsigned and for
  bytes below 0x80. Where plain \<^verbatim>\<open>char\<close> is signed, a byte of 0x80 or more is promoted to
  a negative \<^verbatim>\<open>int\<close>, \<^verbatim>\<open>%02X\<close> prints it with eight digits and \<^verbatim>\<open>snprintf\<close> keeps the
  first two: the byte 0x99 is logged as FF, not as the two digits 99 of its value.
\<close>

theorem high_byte_on_signed_char:
  "debug_print_buffer True (Some (\<lambda>i. CHR ''?'')) 3 (\<lambda>i. 0x99) 1 =
     Inr [(1, ''XXXX  '' @ [dquote] @ ''FF'' @ [dquote] @ ''.'')]"
proof -
  have h: "(1::nat) < 2 ^ 32" by simp
  show ?thesis
    unfolding debug_print_buffer_Some [OF h] log_tagged_byte
    by (simp add: debug_def rendered_single hex_pair_signed_0x99)
qed

text \<open>
  C6. The one line logged is chosen by the first byte of the buffer: 0x10, 0x18, 0x19,
  0x1B and 0x1C give the tags SYNC, FLUP, DRSP, ANNC and SGNL at the level of the
  caller; every other first byte gives the tag XXXX at level 1, whatever the level of
  the caller is. This holds for both signednesses of \<^verbatim>\<open>char\<close>, for a successful
  allocation and a buffer length in the range of the 32-bit loop counter.
\<close>

theorem tag_from_first_byte:
  assumes "buf_len < 2 ^ 32"
  shows "debug_print_buffer char_signed (Some junk) level buf buf_len =
     Inr [if buf 0 = 0x10 then
            (level, ''SYNC: '' @ [dquote] @ rendered char_signed buf buf_len 0 @ [dquote] @ ''.'')
          else if buf 0 = 0x18 then
            (level, ''FLUP: '' @ [dquote] @ rendered char_signed buf buf_len 0 @ [dquote] @ ''.'')
          else if buf 0 = 0x19 then
            (level, ''DRSP: '' @ [dquote] @ rendered char_signed buf buf_len 0 @ [dquote] @ ''.'')
          else if buf 0 = 0x1B then
            (level, ''ANNC: '' @ [dquote] @ rendered char_signed buf buf_len 0 @ [dquote] @ ''.'')
          else if buf 0 = 0x1C then
            (level, ''SGNL: '' @ [dquote] @ rendered char_signed buf buf_len 0 @ [dquote] @ ''.'')
          else
            (1, ''XXXX  '' @ [dquote] @ rendered char_signed buf buf_len 0 @ [dquote] @ ''.'')]"
  unfolding debug_print_buffer_Some [OF assms] log_tagged_byte
  by (simp add: debug_def)

theorem tag_from_first_byte_witness:
  "(20::nat) < 2 ^ 32 \<and>
   debug_print_buffer False (Some (\<lambda>i. CHR ''?'')) 7 (\<lambda>i. if i = 0 then 0x1B else 0) 20 =
     Inr [(7, ''ANNC: '' @ [dquote] @ ''1B000000 00000000 00000000 00000000 | 00000000'' @
              [dquote] @ ''.'')] \<and>
   (1::nat) < 2 ^ 32 \<and>
   debug_print_buffer False (Some (\<lambda>i. CHR ''?'')) 7 (\<lambda>i. 0x99) 1 =
     Inr [(1, ''XXXX  '' @ [dquote] @ ''99'' @ [dquote] @ ''.'')]"
proof -
  have h: "(20::nat) < 2 ^ 32" by simp
  have k: "(1::nat) < 2 ^ 32" by simp
  show ?thesis
    using h k
      tag_from_first_byte [OF h, of False "\<lambda>i. CHR ''?''" 7 "\<lambda>i. if i = 0 then 0x1B else 0"]
      tag_from_first_byte [OF k, of False "\<lambda>i. CHR ''?''" 7 "\<lambda>i. 0x99"]
    by (simp add: rendered_ANNC_20 rendered_single hex_pair_unsigned_0x99)
qed

text \<open>
  With a buffer length in the range of the 32-bit loop counter, the function returns
  normally for any outcome of the allocation.
\<close>

lemma returns_below_2_32:
  assumes "buf_len < 2 ^ 32"
  shows "\<exists>lines. debug_print_buffer char_signed heap level buf buf_len = Inr lines"
proof (cases heap)
  case None
  with debug_print_buffer_None show ?thesis by blast
next
  case (Some junk)
  with debug_print_buffer_Some [OF assms] show ?thesis by blast
qed

text \<open>
  C7. The claim is that the function never fails its caller, on the path of a failed
  allocation and on the path of a successful one. When the allocation fails, nothing is
  logged and the function returns, whatever the buffer is. When it succeeds and the
  buffer has 2^32 bytes, the loop counter of line 125, an \<^verbatim>\<open>unsigned int\<close>, never
  reaches \<^verbatim>\<open>buf_len\<close>, a \<^verbatim>\<open>size_t\<close>: the formatter writes past the end of the block and
  the function does not return normally.
\<close>

theorem four_gib_buffer_does_not_return:
  "debug_print_buffer False (Some (\<lambda>i. CHR ''?'')) 3 (\<lambda>i. 0) 4294967296 = Inl Out_of_bounds
   \<and> debug_print_buffer False None 3 (\<lambda>i. 0) 4294967296 = Inr []"
proof -
  have big: "(2 ^ 32 :: nat) \<le> 4294967296" by simp
  from debug_print_buffer_wraps [OF big] debug_print_buffer_None
  show ?thesis by blast
qed

text \<open>
  For a buffer of \<open>n\<close> bytes, with \<open>n\<close> in the range of the 32-bit loop counter,
  \<^verbatim>\<open>malloc\<close> is asked for \<open>4 * n + 1\<close> bytes, no store of the formatter leaves that block
  (\<open>format_buffer\<close> ends in \<open>Inr\<close>, while any store outside the block ends in
  \<open>Inl Out_of_bounds\<close>), and the characters written, that is the hex digits, the
  separators and the terminating NUL, are at most \<open>4 * n + 1\<close>.
\<close>

theorem format_stays_in_block:
  assumes "buf_len < 2 ^ 32"
  shows "\<exists>obf rest.
           malloc (Some junk) ((buf_len * 4 + 1) mod 2 ^ 64) = Some obf
         \<and> length obf = 4 * buf_len + 1
         \<and> format_buffer char_signed obf buf buf_len =
             Inr (rendered char_signed buf buf_len 0 @ NUL # rest)
         \<and> length (rendered char_signed buf buf_len 0 @ NUL # rest) = length obf
         \<and> length (rendered char_signed buf buf_len 0 @ [NUL]) \<le> 4 * buf_len + 1"
proof -
  let ?obf = "map junk [0..<buf_len * 4 + 1]"
  have m: "malloc (Some junk) ((buf_len * 4 + 1) mod 2 ^ 64) = Some ?obf"
    by (simp only: size_fits [OF assms] malloc_def option.map)
  have l: "length ?obf = 4 * buf_len + 1"
    by simp
  have b: "length (rendered char_signed buf buf_len 0 @ [NUL]) \<le> 4 * buf_len + 1"
    using length_rendered [of char_signed buf buf_len] by simp
  then have "length (rendered char_signed buf buf_len 0) < length ?obf"
    by simp
  from format_buffer_rendered [OF assms this] m l b
  show ?thesis by blast
qed

theorem format_stays_in_block_witness:
  "(20::nat) < 2 ^ 32 \<and>
   (\<exists>obf rest.
      malloc (Some (\<lambda>i. CHR ''?'')) ((20 * 4 + 1) mod 2 ^ 64) = Some obf
    \<and> length obf = 4 * 20 + 1
    \<and> format_buffer False obf (\<lambda>i. if i = 0 then 0x1B else 0) 20 =
        Inr (rendered False (\<lambda>i. if i = 0 then 0x1B else 0) 20 0 @ NUL # rest)
    \<and> length (rendered False (\<lambda>i. if i = 0 then 0x1B else 0) 20 0 @ NUL # rest) = length obf
    \<and> length (rendered False (\<lambda>i. if i = 0 then 0x1B else 0) 20 0 @ [NUL]) \<le> 4 * 20 + 1)"
proof -
  have h: "(20::nat) < 2 ^ 32" by simp
  show ?thesis
    using h format_stays_in_block [OF h, of "\<lambda>i. CHR ''?''" False "\<lambda>i. if i = 0 then 0x1B else 0"]
    by blast
qed

text \<open>
  C10. The claim is that for every buffer of \<open>n\<close> bytes the formatter writes at most
  \<open>4 * n + 1\<close> characters, so that every store lands inside the block of that size. For
  a buffer of 2^32 bytes the block has 2^34 + 1 bytes, the 32-bit loop counter of
  line 125 wraps before it reaches \<^verbatim>\<open>buf_len\<close>, the buffer is formatted again and
  again, and a store leaves the block.
\<close>

theorem four_gib_buffer_leaves_block:
  "malloc (Some (\<lambda>i. CHR ''?'')) ((4294967296 * 4 + 1) mod 2 ^ 64) =
     Some (map (\<lambda>i. CHR ''?'') [0..<17179869185])
   \<and> length (map (\<lambda>i. CHR ''?'') [0..<17179869185]) = 4 * 4294967296 + 1
   \<and> format_buffer False (map (\<lambda>i. CHR ''?'') [0..<17179869185]) (\<lambda>i. 0) 4294967296 =
     Inl Out_of_bounds"
proof -
  have big: "(2 ^ 32 :: nat) \<le> 4294967296" by simp
  have "malloc (Some (\<lambda>i. CHR ''?'')) ((4294967296 * 4 + 1) mod 2 ^ 64) =
     Some (map (\<lambda>i. CHR ''?'') [0..<17179869185])"
    by (simp add: malloc_def del: upt_Suc)
  moreover have "length (map (\<lambda>i. CHR ''?'') [0..<17179869185]) = 4 * 4294967296 + 1"
    by (simp del: upt_Suc)
  ultimately show ?thesis
    using format_buffer_wraps [OF big] by blast
qed

section \<open>Properties of open_sockets_at_port\<close>

subsection \<open>One round and the loop\<close>

lemma sys_simps [simp]:
  "calls (sys c w) = calls w @ [c]"
  "logged (sys c w) = logged w"
  "sockets_open_stuff (sys c w) = sockets_open_stuff w"
  by (simp_all add: sys_def)

lemma open_socket_skipped:
  "\<not> created (p, r) \<Longrightarrow> open_socket portno (p, r) w = Inr (w\<lparr>calls := calls w @ [Socket (ai_family p)]\<rparr>)"
  by (simp add: open_socket_def created_def sys_def)

lemma open_socket_died:
  assumes "created (p, r)" and "option_failed (p, r)"
  shows "open_socket portno (p, r) w =
         Inl (Died (unable_to_listen (ai_family p) portno (strerror_errno r)),
              w\<lparr>calls := calls w @ round_calls (p, r)\<rparr>)"
  using assms
  by (auto simp: open_socket_def created_def option_failed_def round_calls_def sys_def Let_def)

lemma open_socket_opened:
  assumes "created (p, r)" and "\<not> option_failed (p, r)"
  shows "open_socket portno (p, r) w =
         append_socket (socket_ret r) portno
           (w\<lparr>calls := calls w @ round_calls (p, r),
              logged := logged w @ [(2, listening_on (ai_family p) portno)]\<rparr>)"
  using assms
  by (auto simp: open_socket_def created_def option_failed_def round_calls_def sys_def Let_def
      debug_def)

lemma append_socket_Inr:
  assumes "append_socket fd portno w = Inr w1"
  shows "sockets_open (sockets_open_stuff w) < length (sockets (sockets_open_stuff w))"
    and "sockets (sockets_open_stuff w1) =
         (sockets (sockets_open_stuff w))
           [sockets_open (sockets_open_stuff w) := \<lparr>number = fd, port = portno\<rparr>]"
    and "sockets_open (sockets_open_stuff w1) = Suc (sockets_open (sockets_open_stuff w))"
    and "calls w1 = calls w" and "logged w1 = logged w"
  using assms by (auto simp: append_socket_def Let_def split: if_splits)

lemma update_then_rest:
  assumes "n < length xs"
  shows "take (Suc n) (xs[n := x]) @ new @ drop (Suc n + k) (xs[n := x]) =
         take n xs @ (x # new) @ drop (n + Suc k) xs"
proof -
  have "take (Suc n) (xs[n := x]) = take n xs @ [x]"
    using assms by (simp add: take_Suc_conv_app_nth)
  moreover have "drop (Suc n + k) (xs[n := x]) = drop (n + Suc k) xs"
    by simp
  ultimately show ?thesis by simp
qed

lemma open_loop_Inr:
  assumes "open_loop portno es w = Inr w'"
  shows "sockets_open (sockets_open_stuff w') =
           sockets_open (sockets_open_stuff w) + length (filter created es)
       \<and> sockets (sockets_open_stuff w') =
           take (sockets_open (sockets_open_stuff w)) (sockets (sockets_open_stuff w)) @
           map (record_of portno) (filter created es) @
           drop (sockets_open (sockets_open_stuff w) + length (filter created es))
             (sockets (sockets_open_stuff w))
       \<and> (filter created es = [] \<or>
            sockets_open (sockets_open_stuff w) + length (filter created es)
            \<le> length (sockets (sockets_open_stuff w)))
       \<and> calls w' = calls w @ loop_calls es
       \<and> list_all (\<lambda>e. created e \<longrightarrow> \<not> option_failed e) es"
  using assms
proof (induction es arbitrary: w)
  case Nil
  then show ?case by (simp add: loop_calls_def)
next
  case (Cons e es)
  obtain p r where e: "e = (p, r)" by (cases e)
  show ?case
  proof (cases "created e")
    case False
    let ?w1 = "w\<lparr>calls := calls w @ [Socket (ai_family p)]\<rparr>"
    from False e have one: "open_socket portno e w = Inr ?w1"
      by (simp add: open_socket_skipped)
    with Cons.prems have "open_loop portno es ?w1 = Inr w'" by simp
    from Cons.IH [OF this] False e show ?thesis
      by (simp add: loop_calls_def)
  next
    case True
    have ok: "\<not> option_failed e"
    proof
      assume "option_failed e"
      with True e Cons.prems show False
        by (simp add: open_socket_died)
    qed
    let ?w0 = "w\<lparr>calls := calls w @ round_calls (p, r),
                 logged := logged w @ [(2, listening_on (ai_family p) portno)]\<rparr>"
    have one: "open_socket portno e w = append_socket (socket_ret r) portno ?w0"
      using True ok e by (simp add: open_socket_opened)
    then obtain w1 where w1: "append_socket (socket_ret r) portno ?w0 = Inr w1"
      and rest: "open_loop portno es w1 = Inr w'"
      using Cons.prems by (auto split: sum.splits)
    note a = append_socket_Inr [OF w1]
    let ?n = "sockets_open (sockets_open_stuff w)"
    let ?xs = "sockets (sockets_open_stuff w)"
    let ?k = "length (filter created es)"
    have n: "?n < length ?xs" using a(1) by simp
    have xs1: "sockets (sockets_open_stuff w1) = ?xs[?n := record_of portno e]"
      using a(2) e by (simp add: record_of_def)
    have n1: "sockets_open (sockets_open_stuff w1) = Suc ?n"
      using a(3) by simp
    have c1: "calls w1 = calls w @ round_calls e"
      using a(4) e by simp
    from Cons.IH [OF rest]
    have ih1: "sockets_open (sockets_open_stuff w') = Suc ?n + ?k"
      and ih2: "sockets (sockets_open_stuff w') =
          take (Suc ?n) (?xs[?n := record_of portno e]) @ map (record_of portno) (filter created es) @
          drop (Suc ?n + ?k) (?xs[?n := record_of portno e])"
      and ih3: "filter created es = [] \<or> Suc ?n + ?k \<le> length ?xs"
      and ih4: "calls w' = (calls w @ round_calls e) @ loop_calls es"
      and ih5: "list_all (\<lambda>e. created e \<longrightarrow> \<not> option_failed e) es"
      by (simp_all add: xs1 n1 c1)
    have "sockets (sockets_open_stuff w') =
          take ?n ?xs @ (record_of portno e # map (record_of portno) (filter created es)) @
          drop (?n + Suc ?k) ?xs"
      unfolding ih2 by (rule update_then_rest [OF n])
    moreover have "Suc ?n + ?k \<le> length ?xs"
      using ih3 n by auto
    ultimately show ?thesis
      using ih1 ih4 ih5 True ok by (simp add: loop_calls_def)
  qed
qed

lemma open_loop_append:
  "open_loop portno (xs @ ys) w =
     (case open_loop portno xs w of Inl stop \<Rightarrow> Inl stop | Inr w' \<Rightarrow> open_loop portno ys w')"
  by (induction xs arbitrary: w) (auto split: sum.splits)

lemma Fcntl_SETFL_in_round_calls:
  "Fcntl_SETFL (socket_ret (snd e)) (getfl_ret (snd e) OR O_NONBLOCK) \<in> set (round_calls e)"
  by (cases e) (simp add: round_calls_def)

lemma round_calls_in_loop_calls:
  "e \<in> set es \<Longrightarrow> created e \<Longrightarrow> set (round_calls e) \<subseteq> set (loop_calls es)"
  by (induction es) (auto simp: loop_calls_def)

lemma open_sockets_at_port_Inr:
  assumes "open_sockets_at_port gai_strerror env portno w = Inr w'"
  shows "gai_ret env = 0"
    and "\<exists>w1. open_loop portno (info env) (sys (Getaddrinfo (take 19 (dec (unat portno)))) w) = Inr w1
              \<and> w' = sys Freeaddrinfo w1"
  using assms
  by (auto simp: open_sockets_at_port_def Let_def split: if_splits sum.splits)

lemma open_sockets_at_port_returns:
  assumes "open_sockets_at_port gai_strerror env portno w = Inr w'"
  shows "sockets_open (sockets_open_stuff w') =
           sockets_open (sockets_open_stuff w) + length (filter created (info env))"
    and "sockets (sockets_open_stuff w') =
           take (sockets_open (sockets_open_stuff w)) (sockets (sockets_open_stuff w)) @
           map (record_of portno) (filter created (info env)) @
           drop (sockets_open (sockets_open_stuff w) + length (filter created (info env)))
             (sockets (sockets_open_stuff w))"
    and "calls w' = calls w @ Getaddrinfo (take 19 (dec (unat portno))) # loop_calls (info env) @ [Freeaddrinfo]"
    and "list_all (\<lambda>e. created e \<longrightarrow> \<not> option_failed e) (info env)"
    and "filter created (info env) = [] \<or>
         sockets_open (sockets_open_stuff w) + length (filter created (info env))
         \<le> length (sockets (sockets_open_stuff w))"
proof -
  from open_sockets_at_port_Inr(2) [OF assms]
  obtain w1 where
    l: "open_loop portno (info env) (sys (Getaddrinfo (take 19 (dec (unat portno)))) w) = Inr w1"
    and w': "w' = sys Freeaddrinfo w1"
    by blast
  note r = open_loop_Inr [OF l]
  show "sockets_open (sockets_open_stuff w') =
           sockets_open (sockets_open_stuff w) + length (filter created (info env))"
    using r by (simp add: w')
  show "sockets (sockets_open_stuff w') =
           take (sockets_open (sockets_open_stuff w)) (sockets (sockets_open_stuff w)) @
           map (record_of portno) (filter created (info env)) @
           drop (sockets_open (sockets_open_stuff w) + length (filter created (info env)))
             (sockets (sockets_open_stuff w))"
    using r by (simp add: w')
  show "calls w' = calls w @ Getaddrinfo (take 19 (dec (unat portno))) # loop_calls (info env) @ [Freeaddrinfo]"
    using r by (simp add: w')
  show "list_all (\<lambda>e. created e \<longrightarrow> \<not> option_failed e) (info env)"
    using r by simp
  show "filter created (info env) = [] \<or>
         sockets_open (sockets_open_stuff w) + length (filter created (info env))
         \<le> length (sockets (sockets_open_stuff w))"
    using r by simp
qed

lemma take_prefix_frame:
  assumes "ys = take n xs @ new @ drop (n + length new) xs"
    and "new = [] \<or> n + length new \<le> length xs"
  shows "take n ys = take n xs"
    and "length ys = length xs"
    and "take (length new) (drop n ys) = new"
proof -
  consider (none) "new = []" | (some) "n + length new \<le> length xs"
    using assms(2) by blast
  then have "take n ys = take n xs \<and> length ys = length xs \<and> take (length new) (drop n ys) = new"
  proof cases
    case none
    then show ?thesis by (simp add: assms(1))
  next
    case some
    then show ?thesis by (simp add: assms(1))
  qed
  then show "take n ys = take n xs" and "length ys = length xs"
    and "take (length new) (drop n ys) = new"
    by simp_all
qed

lemma final_run_simps [simp]:
  "final_run (Inl (f, w)) = w" "final_run (Inr w) = w"
  by (simp_all add: final_run_def)

lemma calls_append_socket:
  "calls (final_run (append_socket fd portno w)) = calls w"
  by (simp add: append_socket_def Let_def)

lemma calls_open_socket:
  "calls (final_run (open_socket portno e w)) =
   calls w @ (if created e then round_calls e else [Socket (ai_family (fst e))])"
proof (cases e)
  case (Pair p r)
  show ?thesis
  proof (cases "created e")
    case False
    with Pair show ?thesis by (simp add: open_socket_skipped)
  next
    case True
    show ?thesis
    proof (cases "option_failed e")
      case True
      with \<open>created e\<close> Pair show ?thesis by (simp add: open_socket_died)
    next
      case False
      with \<open>created e\<close> Pair show ?thesis
        by (simp add: open_socket_opened calls_append_socket)
    qed
  qed
qed

lemma calls_open_loop:
  "\<exists>rest. calls (final_run (open_loop portno es w)) = calls w @ rest"
proof (induction es arbitrary: w)
  case Nil
  then show ?case by simp
next
  case (Cons e es)
  show ?case
  proof (cases "open_socket portno e w")
    case (Inl stop)
    with calls_open_socket [of portno e w] show ?thesis
      by (cases stop) auto
  next
    case (Inr w')
    with calls_open_socket [of portno e w]
    have "\<exists>one. calls w' = calls w @ one" by auto
    with Cons.IH [of w'] Inr show ?thesis by auto
  qed
qed

lemma calls_from_round:
  assumes "open_loop portno pre w = Inr w1"
  shows "\<exists>rest. calls (final_run (open_loop portno (pre @ e # post) w)) =
           calls w1 @ (if created e then round_calls e else [Socket (ai_family (fst e))]) @ rest"
proof (cases "open_socket portno e w1")
  case (Inl stop)
  then have "open_loop portno (pre @ e # post) w = Inl stop"
    by (simp add: open_loop_append assms)
  with Inl calls_open_socket [of portno e w1] show ?thesis
    by (cases stop) auto
next
  case (Inr w2)
  then have "open_loop portno (pre @ e # post) w = open_loop portno post w2"
    by (simp add: open_loop_append assms)
  moreover from Inr calls_open_socket [of portno e w1]
  have "calls w2 = calls w1 @ (if created e then round_calls e else [Socket (ai_family (fst e))])"
    by simp
  ultimately show ?thesis
    using calls_open_loop [of portno post w2] by auto
qed

lemma calls_open_sockets_at_port:
  assumes "gai_ret env = 0"
  shows "\<exists>rest. calls (final_run (open_sockets_at_port gai_strerror env portno w)) =
           calls (final_run (open_loop portno (info env)
                   (sys (Getaddrinfo (take 19 (dec (unat portno)))) w))) @ rest"
  using assms
  by (cases "open_loop portno (info env) (sys (Getaddrinfo (take 19 (dec (unat portno)))) w)")
     (auto simp: open_sockets_at_port_def Let_def)

subsection \<open>The example runs\<close>

lemma dec_319: "dec 319 = ''319''"
  by (simp add: dec.simps)

lemma dec_320: "dec 320 = ''320''"
  by (simp add: dec.simps)

lemmas example_defs =
  ipv4_ok_def ipv6_ok_def ipv6_unsupported_def ipv6_bind_refused_def empty_run_def run_after_319_def
  open_sockets_at_port_def open_socket_def append_socket_def sys_def debug_def Let_def
  listening_on_def unable_to_listen_def family_name_def so_timestamping_flags_def O_NONBLOCK_def
  SOF_TIMESTAMPING_TX_HARDWARE_def SOF_TIMESTAMPING_TX_SOFTWARE_def SOF_TIMESTAMPING_RX_HARDWARE_def
  SOF_TIMESTAMPING_RX_SOFTWARE_def SOF_TIMESTAMPING_SOFTWARE_def SOF_TIMESTAMPING_RAW_HARDWARE_def

subsection \<open>Claims about open_sockets_at_port\<close>

text \<open>
  C3, as stated, fails. The claim is that the function switches the suppression of
  IPv4 on the IPv6 socket off. With an IPv4 and an IPv6 entry, both opened, the one
  call that sets \<^verbatim>\<open>IPV6_V6ONLY\<close> on the IPv6 socket sets it to 1, which switches the
  suppression on; no call sets it to 0.
\<close>

theorem v6only_is_switched_on:
  "calls (final_run (open_sockets_at_port (\<lambda>e. [])
      \<lparr>gai_ret = 0, info = [ipv4_ok, ipv6_ok]\<rparr> 319 empty_run)) =
     [Getaddrinfo ''319'', Socket AF_INET, Bind 5 AF_INET, Setsockopt_TIMESTAMPING 5 95,
      Fcntl_GETFL 5, Fcntl_SETFL 5 2050, Socket AF_INET6, Setsockopt_V6ONLY 6 1,
      Bind 6 AF_INET6, Setsockopt_TIMESTAMPING 6 95, Fcntl_GETFL 6, Fcntl_SETFL 6 2050,
      Freeaddrinfo]
   \<and> Setsockopt_V6ONLY 6 0 \<notin> set (calls (final_run (open_sockets_at_port (\<lambda>e. [])
      \<lparr>gai_ret = 0, info = [ipv4_ok, ipv6_ok]\<rparr> 319 empty_run)))"
  by (simp add: example_defs dec_319)

text \<open>
  C3, amended. When the loop reaches an entry of family IPv6 (the entries before it
  were opened or skipped) and its socket is created, the call that follows the
  creation sets \<^verbatim>\<open>IPV6_V6ONLY\<close> to 1 on that socket: IPv4 on the IPv6 socket is
  suppressed, so that the socket serves IPv6 only and IPv4 is served by the socket of
  its own family. The bind of the socket, made when that call succeeds, comes right
  after it.
\<close>

theorem v6only_set_before_bind:
  assumes "gai_ret env = 0"
    and "info env = pre @ (p, r) # post"
    and "open_loop portno pre (sys (Getaddrinfo (take 19 (dec (unat portno)))) w) = Inr w1"
    and "ai_family p = AF_INET6"
    and "socket_ret r \<noteq> - 1"
  shows "\<exists>rest.
           calls (final_run (open_sockets_at_port gai_strerror env portno w)) =
           calls w1 @
           [Socket AF_INET6, Setsockopt_V6ONLY (socket_ret r) 1] @
           (if v6only_ret r = 0 then [Bind (socket_ret r) AF_INET6] else []) @ rest"
proof -
  have c: "created (p, r)" using assms(5) by (simp add: created_def)
  from calls_from_round [OF assms(3), of "(p, r)" post] c
  obtain rest1 where
    "calls (final_run (open_loop portno (info env)
        (sys (Getaddrinfo (take 19 (dec (unat portno)))) w))) =
     calls w1 @ round_calls (p, r) @ rest1"
    by (auto simp: assms(2))
  moreover from calls_open_sockets_at_port [OF assms(1), of gai_strerror portno w]
  obtain rest2 where
    "calls (final_run (open_sockets_at_port gai_strerror env portno w)) =
     calls (final_run (open_loop portno (info env)
        (sys (Getaddrinfo (take 19 (dec (unat portno)))) w))) @ rest2"
    by blast
  ultimately have "calls (final_run (open_sockets_at_port gai_strerror env portno w)) =
     calls w1 @ round_calls (p, r) @ rest1 @ rest2"
    by simp
  then show ?thesis
    using assms(4) by (auto simp: round_calls_def)
qed

theorem v6only_set_before_bind_witness:
  "\<exists>rest. calls (final_run (open_sockets_at_port (\<lambda>e. [])
              \<lparr>gai_ret = 0, info = [ipv4_ok, ipv6_ok]\<rparr> 319 empty_run)) =
     [Getaddrinfo ''319'', Socket AF_INET, Bind 5 AF_INET, Setsockopt_TIMESTAMPING 5 95,
      Fcntl_GETFL 5, Fcntl_SETFL 5 2050] @
     [Socket AF_INET6, Setsockopt_V6ONLY 6 1] @ [Bind 6 AF_INET6] @ rest"
proof -
  let ?w1 = "\<lparr>calls = [Getaddrinfo ''319'', Socket AF_INET, Bind 5 AF_INET,
                         Setsockopt_TIMESTAMPING 5 95, Fcntl_GETFL 5, Fcntl_SETFL 5 2050],
                logged = [(2, ''listening on IPv4 port 319.'')],
                sockets_open_stuff =
                  \<lparr>sockets = [\<lparr>number = 5, port = 319\<rparr>, \<lparr>number = 0, port = 0\<rparr>,
                              \<lparr>number = 0, port = 0\<rparr>, \<lparr>number = 0, port = 0\<rparr>],
                   sockets_open = 1\<rparr>\<rparr>"
  have a: "gai_ret \<lparr>gai_ret = 0, info = [ipv4_ok, ipv6_ok]\<rparr> = 0" by simp
  have b: "info \<lparr>gai_ret = 0, info = [ipv4_ok, ipv6_ok]\<rparr> =
           [ipv4_ok] @ (\<lparr>ai_family = AF_INET6\<rparr>, snd ipv6_ok) # []"
    by (simp add: ipv6_ok_def)
  have c: "open_loop 319 [ipv4_ok] (sys (Getaddrinfo (take 19 (dec (unat (319 :: 16 word))))) empty_run) =
           Inr ?w1"
    by (simp add: example_defs dec_319)
  have d: "ai_family \<lparr>ai_family = AF_INET6\<rparr> = AF_INET6" by simp
  have e: "socket_ret (snd ipv6_ok) \<noteq> - 1" by (simp add: ipv6_ok_def)
  from v6only_set_before_bind [OF a b c d e, of "\<lambda>e. []"]
  show ?thesis
    by (simp add: ipv6_ok_def)
qed

text \<open>
  C4, as stated, fails. The second call of a daemon, for port 320, finds the two
  sockets of port 319 in the bundle; the resolver returns an IPv4 and an IPv6 entry and
  the host has no IPv6. The function returns with a count of 3, while 2 address
  families were resolved (and 1 socket was created).
\<close>

theorem count_is_not_the_number_of_families:
  "open_sockets_at_port (\<lambda>e. []) \<lparr>gai_ret = 0, info = [ipv4_ok, ipv6_unsupported]\<rparr> 320 run_after_319 =
     Inr \<lparr>calls = [Getaddrinfo ''320'', Socket AF_INET, Bind 5 AF_INET, Setsockopt_TIMESTAMPING 5 95,
                 Fcntl_GETFL 5, Fcntl_SETFL 5 2050, Socket AF_INET6, Freeaddrinfo],
          logged = [(2, ''listening on IPv4 port 320.'')],
          sockets_open_stuff =
            \<lparr>sockets = [\<lparr>number = 3, port = 319\<rparr>, \<lparr>number = 4, port = 319\<rparr>,
                        \<lparr>number = 5, port = 320\<rparr>, \<lparr>number = 0, port = 0\<rparr>],
             sockets_open = 3\<rparr>\<rparr>
   \<and> length (info \<lparr>gai_ret = 0, info = [ipv4_ok, ipv6_unsupported]\<rparr>) = 2
   \<and> sockets_open (sockets_open_stuff (final_run
         (open_sockets_at_port (\<lambda>e. []) \<lparr>gai_ret = 0, info = [ipv4_ok, ipv6_unsupported]\<rparr> 320
            run_after_319)))
       \<noteq> length (info \<lparr>gai_ret = 0, info = [ipv4_ok, ipv6_unsupported]\<rparr>)"
  by (simp add: example_defs dec_320)

text \<open>
  C4, amended. When the function returns, the count is the count on entry plus the
  number of resolved entries for which \<^verbatim>\<open>socket\<close> succeeded; the records appended are
  those of these entries, in order; each has the port of the call and the descriptor
  that \<^verbatim>\<open>socket\<close> returned, which is not -1, and \<^verbatim>\<open>fcntl(F_SETFL)\<close> was called on it
  with \<^verbatim>\<open>O_NONBLOCK\<close> set.
\<close>

theorem count_grows_by_created_sockets:
  assumes "open_sockets_at_port gai_strerror env portno w = Inr w'"
  shows "sockets_open (sockets_open_stuff w') =
           sockets_open (sockets_open_stuff w) +
           length (filter (\<lambda>e. socket_ret (snd e) \<noteq> - 1) (info env))
       \<and> take (length (filter (\<lambda>e. socket_ret (snd e) \<noteq> - 1) (info env)))
             (drop (sockets_open (sockets_open_stuff w)) (sockets (sockets_open_stuff w'))) =
           map (\<lambda>e. \<lparr>number = socket_ret (snd e), port = portno\<rparr>)
             (filter (\<lambda>e. socket_ret (snd e) \<noteq> - 1) (info env))
       \<and> (\<forall>rec \<in> set (take (length (filter (\<lambda>e. socket_ret (snd e) \<noteq> - 1) (info env)))
                         (drop (sockets_open (sockets_open_stuff w))
                            (sockets (sockets_open_stuff w')))).
             port rec = portno
           \<and> number rec \<noteq> - 1
           \<and> (\<exists>flags. Fcntl_SETFL (number rec) (flags OR O_NONBLOCK) \<in> set (calls w')))"
proof -
  let ?new = "map (record_of portno) (filter created (info env))"
  note r = open_sockets_at_port_returns [OF assms]
  have c: "created = (\<lambda>e. socket_ret (snd e) \<noteq> - 1)"
    by (simp add: created_def fun_eq_iff)
  have rec: "record_of portno = (\<lambda>e. \<lparr>number = socket_ret (snd e), port = portno\<rparr>)"
    by (simp add: record_of_def fun_eq_iff)
  have "?new = [] \<or> sockets_open (sockets_open_stuff w) + length ?new
          \<le> length (sockets (sockets_open_stuff w))"
    using r(5) by simp
  from take_prefix_frame(3) [of "sockets (sockets_open_stuff w')"
      "sockets_open (sockets_open_stuff w)" "sockets (sockets_open_stuff w)" ?new, OF _ this] r(2)
  have slots: "take (length ?new)
      (drop (sockets_open (sockets_open_stuff w)) (sockets (sockets_open_stuff w'))) = ?new"
    by simp
  have nb: "Fcntl_SETFL (socket_ret (snd e)) (getfl_ret (snd e) OR O_NONBLOCK) \<in> set (calls w')"
    if "e \<in> set (filter created (info env))" for e
  proof -
    from that have "e \<in> set (info env)" and "created e" by simp_all
    from round_calls_in_loop_calls [OF this] Fcntl_SETFL_in_round_calls [of e]
    show ?thesis by (auto simp: r(3))
  qed
  have each: "port rec = portno \<and> number rec \<noteq> - 1
           \<and> (\<exists>flags. Fcntl_SETFL (number rec) (flags OR O_NONBLOCK) \<in> set (calls w'))"
    if "rec \<in> set ?new" for rec
  proof -
    from that obtain e where e: "e \<in> set (filter created (info env))"
      and rec: "rec = record_of portno e"
      by auto
    from e have "created e" by simp
    with nb [OF e] rec show ?thesis
      by (auto simp: record_of_def created_def)
  qed
  have "\<forall>rec \<in> set (take (length ?new)
      (drop (sockets_open (sockets_open_stuff w)) (sockets (sockets_open_stuff w')))).
        port rec = portno \<and> number rec \<noteq> - 1
           \<and> (\<exists>flags. Fcntl_SETFL (number rec) (flags OR O_NONBLOCK) \<in> set (calls w'))"
    unfolding slots using each by blast
  with r(1) slots show ?thesis
    unfolding c rec by simp
qed

theorem count_grows_by_created_sockets_witness:
  "open_sockets_at_port (\<lambda>e. []) \<lparr>gai_ret = 0, info = [ipv4_ok, ipv6_unsupported]\<rparr> 320 run_after_319 =
     Inr \<lparr>calls = [Getaddrinfo ''320'', Socket AF_INET, Bind 5 AF_INET, Setsockopt_TIMESTAMPING 5 95,
                 Fcntl_GETFL 5, Fcntl_SETFL 5 2050, Socket AF_INET6, Freeaddrinfo],
          logged = [(2, ''listening on IPv4 port 320.'')],
          sockets_open_stuff =
            \<lparr>sockets = [\<lparr>number = 3, port = 319\<rparr>, \<lparr>number = 4, port = 319\<rparr>,
                        \<lparr>number = 5, port = 320\<rparr>, \<lparr>number = 0, port = 0\<rparr>],
             sockets_open = 3\<rparr>\<rparr>
   \<and> (3::nat) = 2 + length (filter (\<lambda>e. socket_ret (snd e) \<noteq> - 1) [ipv4_ok, ipv6_unsupported])
   \<and> take (length (filter (\<lambda>e. socket_ret (snd e) \<noteq> - 1) [ipv4_ok, ipv6_unsupported]))
         (drop 2 [\<lparr>number = 3, port = 319\<rparr>, \<lparr>number = 4, port = 319\<rparr>,
                  \<lparr>number = 5, port = 320\<rparr>, \<lparr>number = 0, port = 0\<rparr>]) =
       [\<lparr>number = 5, port = 320\<rparr>]"
proof -
  have h: "open_sockets_at_port (\<lambda>e. []) \<lparr>gai_ret = 0, info = [ipv4_ok, ipv6_unsupported]\<rparr> 320
             run_after_319 =
     Inr \<lparr>calls = [Getaddrinfo ''320'', Socket AF_INET, Bind 5 AF_INET, Setsockopt_TIMESTAMPING 5 95,
                 Fcntl_GETFL 5, Fcntl_SETFL 5 2050, Socket AF_INET6, Freeaddrinfo],
          logged = [(2, ''listening on IPv4 port 320.'')],
          sockets_open_stuff =
            \<lparr>sockets = [\<lparr>number = 3, port = 319\<rparr>, \<lparr>number = 4, port = 319\<rparr>,
                        \<lparr>number = 5, port = 320\<rparr>, \<lparr>number = 0, port = 0\<rparr>],
             sockets_open = 3\<rparr>\<rparr>"
    by (simp add: example_defs dec_320)
  from count_grows_by_created_sockets [OF h] h
  show ?thesis
    by (simp add: run_after_319_def ipv4_ok_def ipv6_unsupported_def)
qed

text \<open>
  C5. When \<^verbatim>\<open>socket\<close> fails for an entry, the function goes on with the entries after
  it from a run in which only that call has been added: nothing is appended, nothing
  is logged. When the socket is created and setting \<^verbatim>\<open>IPV6_V6ONLY\<close>, the bind or
  setting \<^verbatim>\<open>SO_TIMESTAMPING\<close> fails, the process is terminated by \<^verbatim>\<open>die\<close> with a message
  that names the family and the port.
\<close>

theorem skip_or_die:
  assumes "gai_ret env = 0"
    and "info env = pre @ (p, r) # post"
    and "open_loop portno pre (sys (Getaddrinfo (take 19 (dec (unat portno)))) w) = Inr w1"
  shows "(socket_ret r = - 1 \<longrightarrow>
            open_sockets_at_port gai_strerror env portno w =
              (case open_loop portno post (w1\<lparr>calls := calls w1 @ [Socket (ai_family p)]\<rparr>) of
                 Inl stop \<Rightarrow> Inl stop
               | Inr w2 \<Rightarrow> Inr (sys Freeaddrinfo w2)))
       \<and> (socket_ret r \<noteq> - 1 \<and>
            ((ai_family p = AF_INET6 \<and> v6only_ret r \<noteq> 0)
              \<or> bind_ret r \<noteq> 0 \<or> timestamping_ret r \<noteq> 0) \<longrightarrow>
            (\<exists>w2. open_sockets_at_port gai_strerror env portno w =
                Inl (Died (''unable to listen on '' @
                           (if ai_family p = AF_INET6 then ''IPv6'' else ''IPv4'') @
                           '' port '' @ dec (unat portno) @
                           ''. The error is: '' @ [dquote] @ strerror_errno r @ [dquote] @
                           ''. Daemon must run as root. Or is a separate PTP daemon running?''),
                     w2)
              \<and> sockets_open_stuff w2 = sockets_open_stuff w1 \<and> logged w2 = logged w1))"
proof -
  have top: "open_sockets_at_port gai_strerror env portno w =
      (case open_socket portno (p, r) w1 of
         Inl stop \<Rightarrow> Inl stop
       | Inr w' \<Rightarrow>
           (case open_loop portno post w' of
              Inl stop \<Rightarrow> Inl stop
            | Inr w2 \<Rightarrow> Inr (sys Freeaddrinfo w2)))"
    by (simp add: open_sockets_at_port_def Let_def assms open_loop_append split: sum.splits)
  have skip: "open_sockets_at_port gai_strerror env portno w =
              (case open_loop portno post (w1\<lparr>calls := calls w1 @ [Socket (ai_family p)]\<rparr>) of
                 Inl stop \<Rightarrow> Inl stop
               | Inr w2 \<Rightarrow> Inr (sys Freeaddrinfo w2))"
    if "socket_ret r = - 1"
    using that by (simp add: top open_socket_skipped created_def)
  have die: "\<exists>w2. open_sockets_at_port gai_strerror env portno w =
                Inl (Died (unable_to_listen (ai_family p) portno (strerror_errno r)), w2)
              \<and> sockets_open_stuff w2 = sockets_open_stuff w1 \<and> logged w2 = logged w1"
    if "socket_ret r \<noteq> - 1"
      and "(ai_family p = AF_INET6 \<and> v6only_ret r \<noteq> 0)
              \<or> bind_ret r \<noteq> 0 \<or> timestamping_ret r \<noteq> 0"
  proof -
    have "created (p, r)" and "option_failed (p, r)"
      using that by (simp_all add: created_def option_failed_def)
    then show ?thesis
      by (simp add: top open_socket_died)
  qed
  show ?thesis
    using skip die by (simp add: unable_to_listen_def family_name_def)
qed

theorem skip_or_die_witness:
  "open_sockets_at_port (\<lambda>e. []) \<lparr>gai_ret = 0, info = [ipv6_unsupported, ipv4_ok]\<rparr> 319 empty_run =
     Inr \<lparr>calls = [Getaddrinfo ''319'', Socket AF_INET6, Socket AF_INET, Bind 5 AF_INET,
                 Setsockopt_TIMESTAMPING 5 95, Fcntl_GETFL 5, Fcntl_SETFL 5 2050, Freeaddrinfo],
          logged = [(2, ''listening on IPv4 port 319.'')],
          sockets_open_stuff =
            \<lparr>sockets = [\<lparr>number = 5, port = 319\<rparr>, \<lparr>number = 0, port = 0\<rparr>,
                        \<lparr>number = 0, port = 0\<rparr>, \<lparr>number = 0, port = 0\<rparr>],
             sockets_open = 1\<rparr>\<rparr>
   \<and> (\<exists>w2. open_sockets_at_port (\<lambda>e. []) \<lparr>gai_ret = 0, info = [ipv4_ok, ipv6_bind_refused]\<rparr> 319
              empty_run =
            Inl (Died (''unable to listen on IPv6 port 319. The error is: '' @ [dquote] @
                       ''Permission denied'' @ [dquote] @
                       ''. Daemon must run as root. Or is a separate PTP daemon running?''), w2))"
proof -
  let ?w0 = "sys (Getaddrinfo (take 19 (dec (unat (319 :: 16 word))))) empty_run"
  let ?w1 = "\<lparr>calls = [Getaddrinfo ''319'', Socket AF_INET, Bind 5 AF_INET,
                         Setsockopt_TIMESTAMPING 5 95, Fcntl_GETFL 5, Fcntl_SETFL 5 2050],
                logged = [(2, ''listening on IPv4 port 319.'')],
                sockets_open_stuff =
                  \<lparr>sockets = [\<lparr>number = 5, port = 319\<rparr>, \<lparr>number = 0, port = 0\<rparr>,
                              \<lparr>number = 0, port = 0\<rparr>, \<lparr>number = 0, port = 0\<rparr>],
                   sockets_open = 1\<rparr>\<rparr>"
  have a1: "gai_ret \<lparr>gai_ret = 0, info = [ipv6_unsupported, ipv4_ok]\<rparr> = 0" by simp
  have b1: "info \<lparr>gai_ret = 0, info = [ipv6_unsupported, ipv4_ok]\<rparr> =
            [] @ (\<lparr>ai_family = AF_INET6\<rparr>, snd ipv6_unsupported) # [ipv4_ok]"
    by (simp add: ipv6_unsupported_def)
  have c1: "open_loop 319 [] ?w0 = Inr ?w0" by simp
  have a2: "gai_ret \<lparr>gai_ret = 0, info = [ipv4_ok, ipv6_bind_refused]\<rparr> = 0" by simp
  have b2: "info \<lparr>gai_ret = 0, info = [ipv4_ok, ipv6_bind_refused]\<rparr> =
            [ipv4_ok] @ (\<lparr>ai_family = AF_INET6\<rparr>, snd ipv6_bind_refused) # []"
    by (simp add: ipv6_bind_refused_def)
  have c2: "open_loop 319 [ipv4_ok] ?w0 = Inr ?w1"
    by (simp add: example_defs dec_319)
  from skip_or_die [OF a1 b1 c1, of "\<lambda>e. []"] skip_or_die [OF a2 b2 c2, of "\<lambda>e. []"]
  show ?thesis
    by (simp add: example_defs dec_319)
qed

text \<open>
  C9. When the function returns, every record below the count on entry is unchanged,
  the count has not decreased, it has grown by the number of records appended (one
  for each entry whose socket was created), and the array is the old one with these
  records stored from the old count on.
\<close>

theorem only_appends:
  assumes "open_sockets_at_port gai_strerror env portno w = Inr w'"
  shows "(\<forall>i < sockets_open (sockets_open_stuff w).
            sockets (sockets_open_stuff w') ! i = sockets (sockets_open_stuff w) ! i)
       \<and> sockets_open (sockets_open_stuff w) \<le> sockets_open (sockets_open_stuff w')
       \<and> sockets_open (sockets_open_stuff w') - sockets_open (sockets_open_stuff w) =
           length (filter (\<lambda>e. socket_ret (snd e) \<noteq> - 1) (info env))
       \<and> sockets (sockets_open_stuff w') =
           take (sockets_open (sockets_open_stuff w)) (sockets (sockets_open_stuff w)) @
           map (\<lambda>e. \<lparr>number = socket_ret (snd e), port = portno\<rparr>)
             (filter (\<lambda>e. socket_ret (snd e) \<noteq> - 1) (info env)) @
           drop (sockets_open (sockets_open_stuff w'))  (sockets (sockets_open_stuff w))"
proof -
  let ?n = "sockets_open (sockets_open_stuff w)"
  let ?xs = "sockets (sockets_open_stuff w)"
  let ?ys = "sockets (sockets_open_stuff w')"
  let ?new = "map (record_of portno) (filter created (info env))"
  note r = open_sockets_at_port_returns [OF assms]
  have c: "created = (\<lambda>e. socket_ret (snd e) \<noteq> - 1)"
    by (simp add: created_def fun_eq_iff)
  have rec: "record_of portno = (\<lambda>e. \<lparr>number = socket_ret (snd e), port = portno\<rparr>)"
    by (simp add: record_of_def fun_eq_iff)
  have cap: "?new = [] \<or> ?n + length ?new \<le> length ?xs"
    using r(5) by simp
  have ys: "?ys = take ?n ?xs @ ?new @ drop (?n + length ?new) ?xs"
    using r(2) by simp
  have below: "?ys ! i = ?xs ! i" if "i < ?n" for i
  proof (cases "?new = []")
    case True
    then show ?thesis using ys by simp
  next
    case False
    with cap have "?n \<le> length ?xs" by simp
    with that show ?thesis by (simp add: ys nth_append)
  qed
  show ?thesis
    using below r(1) ys unfolding c rec by simp
qed

theorem only_appends_witness:
  "open_sockets_at_port (\<lambda>e. []) \<lparr>gai_ret = 0, info = [ipv4_ok, ipv6_ok]\<rparr> 320 run_after_319 =
     Inr \<lparr>calls = [Getaddrinfo ''320'', Socket AF_INET, Bind 5 AF_INET, Setsockopt_TIMESTAMPING 5 95,
                 Fcntl_GETFL 5, Fcntl_SETFL 5 2050, Socket AF_INET6, Setsockopt_V6ONLY 6 1,
                 Bind 6 AF_INET6, Setsockopt_TIMESTAMPING 6 95, Fcntl_GETFL 6, Fcntl_SETFL 6 2050,
                 Freeaddrinfo],
          logged = [(2, ''listening on IPv4 port 320.''), (2, ''listening on IPv6 port 320.'')],
          sockets_open_stuff =
            \<lparr>sockets = [\<lparr>number = 3, port = 319\<rparr>, \<lparr>number = 4, port = 319\<rparr>,
                        \<lparr>number = 5, port = 320\<rparr>, \<lparr>number = 6, port = 320\<rparr>],
             sockets_open = 4\<rparr>\<rparr>
   \<and> (4::nat) - 2 = length (filter (\<lambda>e. socket_ret (snd e) \<noteq> - 1) [ipv4_ok, ipv6_ok])"
proof -
  have h: "open_sockets_at_port (\<lambda>e. []) \<lparr>gai_ret = 0, info = [ipv4_ok, ipv6_ok]\<rparr> 320 run_after_319 =
     Inr \<lparr>calls = [Getaddrinfo ''320'', Socket AF_INET, Bind 5 AF_INET, Setsockopt_TIMESTAMPING 5 95,
                 Fcntl_GETFL 5, Fcntl_SETFL 5 2050, Socket AF_INET6, Setsockopt_V6ONLY 6 1,
                 Bind 6 AF_INET6, Setsockopt_TIMESTAMPING 6 95, Fcntl_GETFL 6, Fcntl_SETFL 6 2050,
                 Freeaddrinfo],
          logged = [(2, ''listening on IPv4 port 320.''), (2, ''listening on IPv6 port 320.'')],
          sockets_open_stuff =
            \<lparr>sockets = [\<lparr>number = 3, port = 319\<rparr>, \<lparr>number = 4, port = 319\<rparr>,
                        \<lparr>number = 5, port = 320\<rparr>, \<lparr>number = 6, port = 320\<rparr>],
             sockets_open = 4\<rparr>\<rparr>"
    by (simp add: example_defs dec_320)
  from only_appends [OF h] h
  show ?thesis
    by (simp add: run_after_319_def ipv4_ok_def ipv6_ok_def)
qed

section \<open>Properties of get_self_clock_id\<close>

lemma scan_not_eligible: "\<not> eligible ifa \<Longrightarrow> scan_interface ifa st = Inr st"
  by (auto simp: scan_interface_def eligible_def split: option.splits)

lemma scan_found: "found st \<noteq> 0 \<Longrightarrow> scan_interface ifa st = Inr st"
  by (auto simp: scan_interface_def split: option.splits)

lemma scan_skip_prefix:
  "list_all (\<lambda>ifa. \<not> eligible ifa) pre \<Longrightarrow>
   scan_interfaces (pre @ rest) st = scan_interfaces rest st"
  by (induction pre) (simp_all add: scan_not_eligible)

lemma scan_after_found: "found st \<noteq> 0 \<Longrightarrow> scan_interfaces rest st = Inr st"
  by (induction rest) (simp_all add: scan_found)

lemma scan_selects:
  assumes "list_all (\<lambda>ifa. \<not> eligible ifa) pre"
    and "ifa_addr ifa = Some s" and "sa_family s = AF_PACKET" and "ifa_name ifa \<noteq> ''lo''"
    and "unat (sll_halen s) \<le> 8" and "length (sll_addr s) = 8"
  shows "scan_interfaces (pre @ ifa # post)
           \<lparr>found = 0, len = 0, local_clock_id = map uninitialised [0..<8]\<rparr> =
         Inr \<lparr>found = 1, len = uint (sll_halen s),
              local_clock_id = take (unat (sll_halen s)) (sll_addr s) @
                               drop (unat (sll_halen s)) (map uninitialised [0..<8])\<rparr>"
proof -
  have "scan_interface ifa \<lparr>found = 0, len = 0, local_clock_id = map uninitialised [0..<8]\<rparr> =
        Inr \<lparr>found = 1, len = uint (sll_halen s),
              local_clock_id = take (unat (sll_halen s)) (sll_addr s) @
                               drop (unat (sll_halen s)) (map uninitialised [0..<8])\<rparr>"
    using assms(2-6) by (simp add: scan_interface_def memcpy_def del: upt_Suc)
  then show ?thesis
    by (simp add: scan_skip_prefix [OF assms(1)] scan_after_found del: upt_Suc)
qed

lemma upt_8: "[0..<8] = [0, 1, 2, 3, 4, 5, 6, 7 :: nat]"
  by code_simp

lemma uninitialised_8:
  "map u [0..<8] = [u 0, u 1, u 2, u 3, u 4, u 5, u 6, u 7]"
  unfolding upt_8 by simp

lemma scan_interface_not_Died: "scan_interface ifa st \<noteq> Inl (Died msg)"
  by (auto simp: scan_interface_def memcpy_def split: option.splits sum.splits if_splits)

lemma scan_interfaces_not_Died: "scan_interfaces ifs st \<noteq> Inl (Died msg)"
proof (induction ifs arbitrary: st)
  case Nil
  then show ?case by simp
next
  case (Cons ifa ifs)
  show ?case
  proof (cases "scan_interface ifa st")
    case (Inl e)
    with scan_interface_not_Died [of ifa st msg] show ?thesis by auto
  next
    case (Inr st')
    with Cons.IH [of st'] show ?thesis by simp
  qed
qed

subsection \<open>Claims about get_self_clock_id\<close>

text \<open>
  C1. The address taken is that of the first interface with a link-layer address that
  is not \<^verbatim>\<open>lo\<close>. When it has 6 bytes \<open>b0 ... b5\<close>, the identifier returned is
  \<open>b0 b1 b2 FF FE b3 b4 b5\<close>; when it has 8 bytes, the identifier is these 8 bytes, in
  the order of the address.
\<close>

theorem eui48_extended_eui64_kept:
  assumes "getifaddrs_ret \<noteq> - 1"
    and "ifaddr = pre @ ifa # post"
    and "list_all (\<lambda>ifa. \<not> eligible ifa) pre"
    and "ifa_addr ifa = Some s" and "sa_family s = AF_PACKET" and "ifa_name ifa \<noteq> ''lo''"
  shows "(sll_halen s = 6 \<and> sll_addr s = [b0, b1, b2, b3, b4, b5, x6, x7] \<longrightarrow>
            get_self_clock_id gai_strerror getifaddrs_ret ifaddr uninitialised =
              Inr [b0, b1, b2, 0xFF, 0xFE, b3, b4, b5])
       \<and> (sll_halen s = 8 \<and> sll_addr s = [b0, b1, b2, b3, b4, b5, b6, b7] \<longrightarrow>
            get_self_clock_id gai_strerror getifaddrs_ret ifaddr uninitialised =
              Inr [b0, b1, b2, b3, b4, b5, b6, b7])"
proof -
  have six: "get_self_clock_id gai_strerror getifaddrs_ret ifaddr uninitialised =
              Inr [b0, b1, b2, 0xFF, 0xFE, b3, b4, b5]"
    if h: "sll_halen s = 6" and a: "sll_addr s = [b0, b1, b2, b3, b4, b5, x6, x7]"
  proof -
    have "unat (sll_halen s) \<le> 8" and "length (sll_addr s) = 8"
      using h a by simp_all
    from scan_selects [OF assms(3-6) this, of post uninitialised]
    show ?thesis
      using assms(1) h a
      by (simp add: get_self_clock_id_def assms(2) eui48_to_eui64_def Let_def uninitialised_8
          del: upt_Suc)
  qed
  have eight: "get_self_clock_id gai_strerror getifaddrs_ret ifaddr uninitialised =
              Inr [b0, b1, b2, b3, b4, b5, b6, b7]"
    if h: "sll_halen s = 8" and a: "sll_addr s = [b0, b1, b2, b3, b4, b5, b6, b7]"
  proof -
    have "unat (sll_halen s) \<le> 8" and "length (sll_addr s) = 8"
      using h a by simp_all
    from scan_selects [OF assms(3-6) this, of post uninitialised]
    show ?thesis
      using assms(1) h a
      by (simp add: get_self_clock_id_def assms(2) uninitialised_8 del: upt_Suc)
  qed
  from six eight show ?thesis by blast
qed

theorem eui48_extended_eui64_kept_witness:
  "get_self_clock_id (\<lambda>e. []) 0 [lo_interface, eth0_inet, eth0_packet] (\<lambda>i. 0) =
     Inr [0xAA, 0xBB, 0xCC, 0xFF, 0xFE, 0xDD, 0xEE, 0xFF]
   \<and> get_self_clock_id (\<lambda>e. []) 0 [lo_interface, eui64_packet, eth0_packet] (\<lambda>i. 0) =
     Inr [0x00, 0x12, 0x4B, 0x00, 0x14, 0xB5, 0x2D, 0x7F]"
proof -
  have r: "(0::int) \<noteq> - 1" by simp
  have n1: "list_all (\<lambda>ifa. \<not> eligible ifa) [lo_interface, eth0_inet]"
    by (simp add: eligible_def lo_interface_def eth0_inet_def AF_PACKET_def)
  have n2: "list_all (\<lambda>ifa. \<not> eligible ifa) [lo_interface]"
    by (simp add: eligible_def lo_interface_def)
  have s1: "[lo_interface, eth0_inet, eth0_packet] = [lo_interface, eth0_inet] @ eth0_packet # []"
    by simp
  have s2: "[lo_interface, eui64_packet, eth0_packet] = [lo_interface] @ eui64_packet # [eth0_packet]"
    by simp
  have a1: "ifa_addr eth0_packet =
      Some \<lparr>sa_family = AF_PACKET, sll_halen = 6,
            sll_addr = [0xAA, 0xBB, 0xCC, 0xDD, 0xEE, 0xFF, 0, 0]\<rparr>"
    by (simp add: eth0_packet_def)
  have a2: "ifa_addr eui64_packet =
      Some \<lparr>sa_family = AF_PACKET, sll_halen = 8,
            sll_addr = [0x00, 0x12, 0x4B, 0x00, 0x14, 0xB5, 0x2D, 0x7F]\<rparr>"
    by (simp add: eui64_packet_def)
  have f: "sa_family \<lparr>sa_family = AF_PACKET, sll_halen = h, sll_addr = a\<rparr> = AF_PACKET" for h a
    by simp
  have m1: "ifa_name eth0_packet \<noteq> ''lo''" by (simp add: eth0_packet_def)
  have m2: "ifa_name eui64_packet \<noteq> ''lo''" by (simp add: eui64_packet_def)
  from eui48_extended_eui64_kept [OF r s1 n1 a1 f m1,
      where ?b0.0 = "0xAA" and ?b1.0 = "0xBB" and ?b2.0 = "0xCC" and ?b3.0 = "0xDD" and ?b4.0 = "0xEE"
        and ?b5.0 = "0xFF" and ?x6.0 = "0" and ?x7.0 = "0"
        and gai_strerror = "\<lambda>e. []" and uninitialised = "\<lambda>i. 0"]
    eui48_extended_eui64_kept [OF r s2 n2 a2 f m2,
      where ?b0.0 = "0x00" and ?b1.0 = "0x12" and ?b2.0 = "0x4B" and ?b3.0 = "0x00" and ?b4.0 = "0x14"
        and ?b5.0 = "0xB5" and ?b6.0 = "0x2D" and ?b7.0 = "0x7F"
        and gai_strerror = "\<lambda>e. []" and uninitialised = "\<lambda>i. 0"]
  show ?thesis by simp
qed

text \<open>
  C8. When \<^verbatim>\<open>getifaddrs\<close> returns -1, the process is terminated by \<^verbatim>\<open>die\<close> with the
  message "getifaddrs: " followed by the text of \<^verbatim>\<open>gai_strerror(1)\<close>, 1 being the truth
  value that line 175 stores in \<^verbatim>\<open>status\<close>. With any other return value the function never
  ends in \<^verbatim>\<open>die\<close>.
\<close>

theorem enumeration_failure_is_fatal:
  "get_self_clock_id gai_strerror (- 1) ifaddr uninitialised =
     Inl (Died (''getifaddrs: '' @ gai_strerror 1))
   \<and> (getifaddrs_ret \<noteq> - 1 \<longrightarrow>
        (\<forall>msg. get_self_clock_id gai_strerror getifaddrs_ret ifaddr uninitialised \<noteq> Inl (Died msg)))"
proof -
  have "get_self_clock_id gai_strerror getifaddrs_ret ifaddr uninitialised \<noteq> Inl (Died msg)"
    if "getifaddrs_ret \<noteq> - 1" for msg
    using that
      scan_interfaces_not_Died [of ifaddr
        "\<lparr>found = 0, len = 0, local_clock_id = map uninitialised [0..<8]\<rparr>" msg]
    by (auto simp: get_self_clock_id_def Let_def split: sum.splits simp del: upt_Suc)
  then show ?thesis
    by (simp add: get_self_clock_id_def)
qed

theorem enumeration_failure_is_fatal_witness:
  "get_self_clock_id (\<lambda>e. ''Unknown error'') (- 1) [lo_interface, eth0_packet] (\<lambda>i. 0) =
     Inl (Died ''getifaddrs: Unknown error'')
   \<and> (0::int) \<noteq> - 1
   \<and> (\<forall>msg. get_self_clock_id (\<lambda>e. ''Unknown error'') 0 [lo_interface, eth0_packet] (\<lambda>i. 0)
          \<noteq> Inl (Died msg))"
  using enumeration_failure_is_fatal
    [of "\<lambda>e. ''Unknown error''" "[lo_interface, eth0_packet]" "\<lambda>i. 0" 0]
  by simp

end
